theory Spec2Isabelle
  imports Main "HOL-Library.Char_ord" "HOL-Library.List_Lexorder" "HOL-Library.Multiset"
begin

unbundle bit_operations_syntax

section \<open>The tag store (type Tags), with value semantics\<close>

text \<open>
  \<^verbatim>\<open>type Tags map[string]interface{}\<close>: the value stored under a key is either a
  \<^verbatim>\<open>string\<close> or a \<^verbatim>\<open>[]string\<close>. A Go string is a sequence of bytes, as is a HOL
  \<^typ>\<open>string\<close>. This section reads each slice as the sequence of its elements; the
  backing arrays, which slices can share, come in the section on the heap.
\<close>

datatype tag_value = Str string | Strs "string list"

type_synonym Tags = "string \<rightharpoonup> tag_value"

datatype panic = IndexOutOfRange | NilMapWrite | NilDereference

text \<open>The body of the loop of \<^verbatim>\<open>Tags.Add\<close>: the type switch on \<^verbatim>\<open>t[key]\<close>.\<close>

definition Add1 :: "string \<Rightarrow> string \<Rightarrow> Tags \<Rightarrow> Tags" where
  "Add1 key v t =
     (case t key of
        None \<Rightarrow> t(key \<mapsto> Str v)
      | Some (Str vs) \<Rightarrow> t(key \<mapsto> Strs [vs, v])
      | Some (Strs vs) \<Rightarrow> t(key \<mapsto> Strs (vs @ [v])))"

definition Add :: "string \<Rightarrow> string list \<Rightarrow> Tags \<Rightarrow> Tags" where
  "Add key value t = fold (Add1 key) value t"

definition GetAll :: "Tags \<Rightarrow> string \<Rightarrow> string list" where
  "GetAll t key =
     (case t key of
        Some (Str vs) \<Rightarrow> [vs]
      | Some (Strs vs) \<Rightarrow> vs
      | None \<Rightarrow> [])"

text \<open>\<^verbatim>\<open>vs[0]\<close> panics on an empty slice.\<close>

definition Get :: "Tags \<Rightarrow> string \<Rightarrow> panic + string" where
  "Get t key =
     (case t key of
        Some (Str vs) \<Rightarrow> Inr vs
      | Some (Strs vs) \<Rightarrow> (case vs of [] \<Rightarrow> Inl IndexOutOfRange | v0 # _ \<Rightarrow> Inr v0)
      | None \<Rightarrow> Inr [])"

text \<open>The body of the outer loop of \<^verbatim>\<open>Tags.Merge\<close>; the inner loop searches
  \<^verbatim>\<open>current\<close> for \<^verbatim>\<open>v\<close>.\<close>

definition Merge1 :: "string \<Rightarrow> string \<Rightarrow> Tags \<Rightarrow> Tags" where
  "Merge1 key v t =
     (let current = GetAll t key;
          found = list_ex (\<lambda>cv. v = cv) current
      in if \<not> found then Add key [v] t else t)"

definition Merge :: "string \<Rightarrow> string list \<Rightarrow> Tags \<Rightarrow> Tags" where
  "Merge key value t = fold (Merge1 key) value t"

definition Push :: "string \<Rightarrow> string list \<Rightarrow> Tags \<Rightarrow> Tags" where
  "Push key value t = Add key value t"

definition Pop :: "string \<Rightarrow> Tags \<Rightarrow> Tags" where
  "Pop key t =
     (case t key of
        None \<Rightarrow> t
      | Some (Str vs) \<Rightarrow> t(key := None)
      | Some (Strs vs) \<Rightarrow>
          if length vs \<le> 1 then t(key := None)
          else if length vs = 2 then t(key \<mapsto> Str (vs ! 0))
          else t(key \<mapsto> Strs (take (length vs - 1) vs)))"

definition Del :: "string \<Rightarrow> Tags \<Rightarrow> Tags" where
  "Del key t = t(key := None)"

definition Set :: "string \<Rightarrow> string list \<Rightarrow> Tags \<Rightarrow> Tags" where
  "Set key value t = Add key value (Del key t)"

definition DelAll :: "Tags \<Rightarrow> Tags" where
  "DelAll t = Map.empty"

text \<open>\<^verbatim>\<open>Tags.Export\<close> builds a \<^verbatim>\<open>map[string][]string\<close>; the slices are fresh copies.\<close>

definition Export :: "Tags \<Rightarrow> (string \<rightharpoonup> string list)" where
  "Export t = (\<lambda>k. case t k of
                      None \<Rightarrow> None
                    | Some (Str vs) \<Rightarrow> Some [vs]
                    | Some (Strs vs) \<Rightarrow> Some vs)"

text \<open>
  \<^verbatim>\<open>Tags.Import\<close> ranges over the map it is given. Go leaves the order of that
  iteration open, so the model takes it as the argument \<open>ks\<close>: the keys of \<open>tags\<close> in
  the order in which the loop visits them.
\<close>

definition Import :: "string list \<Rightarrow> (string \<rightharpoonup> string list) \<Rightarrow> Tags \<Rightarrow> Tags" where
  "Import ks tags t =
     fold (\<lambda>k t'. case tags k of Some v \<Rightarrow> Merge k v t' | None \<Rightarrow> t') ks t"

definition Copy :: "string list \<Rightarrow> Tags \<Rightarrow> Tags" where
  "Copy ks t = Import ks (Export t) Map.empty"

text \<open>A sequence stored by the operations above always holds at least two values.\<close>

fun multi :: "tag_value option \<Rightarrow> bool" where
  "multi (Some (Strs vs)) = (2 \<le> length vs)"
| "multi _ = True"

text \<open>The value that holds a sequence of values in the store: none, one string, a slice.\<close>

fun pack :: "string list \<Rightarrow> tag_value option" where
  "pack [] = None"
| "pack [v] = Some (Str v)"
| "pack vs = Some (Strs vs)"

section \<open>The functions of Go's \<^verbatim>\<open>strings\<close> package that the code calls\<close>

text \<open>
  Every separator and cutset that the code passes is a one-byte ASCII string
  (\<^verbatim>\<open>" "\<close>, \<^verbatim>\<open>"="\<close>, \<^verbatim>\<open>","\<close>), so the separator is a \<^typ>\<open>char\<close> here.
  \<^verbatim>\<open>strings.Split("", sep)\<close> is the one-element slice holding the empty string.
\<close>

fun Split :: "string \<Rightarrow> char \<Rightarrow> string list" where
  "Split [] sep = [[]]"
| "Split (c # cs) sep =
     (if c = sep then [] # Split cs sep
      else (case Split cs sep of
              piece # pieces \<Rightarrow> (c # piece) # pieces
            | [] \<Rightarrow> [[c]]))"

fun Join :: "string list \<Rightarrow> string \<Rightarrow> string" where
  "Join [] sep = []"
| "Join [x] sep = x"
| "Join (x # y # ys) sep = x @ sep @ Join (y # ys) sep"

definition HasPrefix :: "string \<Rightarrow> string \<Rightarrow> bool" where
  "HasPrefix s pre = (length pre \<le> length s \<and> take (length pre) s = pre)"

definition TrimPrefix :: "string \<Rightarrow> string \<Rightarrow> string" where
  "TrimPrefix s pre = (if HasPrefix s pre then drop (length pre) s else s)"

definition TrimLeft :: "string \<Rightarrow> char \<Rightarrow> string" where
  "TrimLeft s cutset = dropWhile (\<lambda>c. c = cutset) s"

text \<open>\<^verbatim>\<open>strings.ToUpper\<close> on ASCII text; bytes outside \<^verbatim>\<open>a..z\<close> are kept.\<close>

definition upper_char :: "char \<Rightarrow> char" where
  "upper_char c =
     (if CHR ''a'' \<le> c \<and> c \<le> CHR ''z'' then char_of (of_char c - (32::nat)) else c)"

definition ToUpper :: "string \<Rightarrow> string" where
  "ToUpper s = map upper_char s"

section \<open>Formatting parameters and the timestamp layout\<close>

record Params =
  Format :: int
  TimestampFormat :: string
  TimestampFormatType :: int
  Prefix :: string
  Flag :: int

definition FormatPlain :: int where "FormatPlain = 0"
definition FormatJSON :: int where "FormatJSON = 1"

definition TimestampFormatTypeISO :: int where "TimestampFormatTypeISO = 0"
definition TimestampFormatTypeStd :: int where "TimestampFormatTypeStd = 1"
definition TimestampFormatTypeUnknown :: int where "TimestampFormatTypeUnknown = 2"

definition TimestampFormatISO :: string where
  "TimestampFormatISO = ''2006-01-02T15:04:05Z07:00''"
definition TimestampFormatISOTime :: string where
  "TimestampFormatISOTime = ''15:04:05Z07:00''"
definition TimestampFormatISODate :: string where
  "TimestampFormatISODate = ''2006-01-02''"
definition TimestampFormatStd :: string where
  "TimestampFormatStd = ''2006/01/02 15:04:05''"
definition TimestampFormatStdTime :: string where
  "TimestampFormatStdTime = ''15:04:05''"
definition TimestampFormatStdDate :: string where
  "TimestampFormatStdDate = ''2006/01/02''"

definition Ldate :: int where "Ldate = 1"
definition Ltime :: int where "Ltime = 2"
definition Lmicroseconds :: int where "Lmicroseconds = 4"
definition Llongfile :: int where "Llongfile = 8"
definition Lshortfile :: int where "Lshortfile = 16"
definition LUTC :: int where "LUTC = 32"
definition LstdFlags :: int where "LstdFlags = 3"
definition Lmilliseconds :: int where "Lmilliseconds = 65536"

definition DefaultParams :: Params where
  "DefaultParams =
     \<lparr> Format = FormatPlain,
       TimestampFormat = TimestampFormatStd,
       TimestampFormatType = TimestampFormatTypeStd,
       Prefix = [],
       Flag = LstdFlags \<rparr>"

definition GenTimestampFormat :: "int \<Rightarrow> int \<Rightarrow> string" where
  "GenTimestampFormat tsFormatType flag =
     (if tsFormatType = TimestampFormatTypeISO then
        (if flag AND (Ldate OR Ltime) \<noteq> 0 then
           (if flag AND Ldate \<noteq> 0 \<and> flag AND Ltime \<noteq> 0 then
              (if flag AND Lmicroseconds \<noteq> 0 then ''2006-01-02T15:04:05.000000Z07:00''
               else if flag AND Lmilliseconds \<noteq> 0 then ''2006-01-02T15:04:05.000Z07:00''
               else TimestampFormatISO)
            else if flag AND Ldate \<noteq> 0 then TimestampFormatISODate
            else
              (if flag AND Lmicroseconds \<noteq> 0 then ''15:04:05.000000Z07:00''
               else if flag AND Lmilliseconds \<noteq> 0 then ''15:04:05.000Z07:00''
               else TimestampFormatISOTime))
         else [])
      else if tsFormatType = TimestampFormatTypeStd then
        (if flag AND (Ldate OR Ltime) \<noteq> 0 then
           (if flag AND Ldate \<noteq> 0 \<and> flag AND Ltime \<noteq> 0 then
              (if flag AND Lmicroseconds \<noteq> 0 then ''2006/01/02 15:04:05.000000''
               else if flag AND Lmilliseconds \<noteq> 0 then ''2006/01/02 15:04:05.000''
               else TimestampFormatStd)
            else if flag AND Ldate \<noteq> 0 then TimestampFormatStdDate
            else
              (if flag AND Lmicroseconds \<noteq> 0 then ''15:04:05.000000''
               else if flag AND Lmilliseconds \<noteq> 0 then ''15:04:05.000''
               else TimestampFormatStdTime))
         else [])
      else [])"

definition calcTsFormat :: "Params \<Rightarrow> string" where
  "calcTsFormat p =
     (if TimestampFormat p \<noteq> [] then TimestampFormat p
      else GenTimestampFormat (TimestampFormatType p) (Flag p))"

text \<open>
  Go's \<^verbatim>\<open>time\<close> package is not part of the repository. The code reaches it through
  \<^verbatim>\<open>time.Parse(layout, value)\<close>, \<^verbatim>\<open>t.Format(layout)\<close> and \<^verbatim>\<open>t.UTC()\<close>; the model takes
  the three as a parameter, over any type \<open>'ts\<close> of time values.
\<close>

record 'ts time_pkg =
  time_Parse :: "string \<Rightarrow> string \<Rightarrow> 'ts option"
  time_Format :: "'ts \<Rightarrow> string \<Rightarrow> string"
  time_UTC :: "'ts \<Rightarrow> 'ts"

section \<open>The line parser (type Parser)\<close>

datatype error =
    FormatMismatchPrefix      \<comment> \<open>\<^verbatim>\<open>"Log format mismatch: prefix"\<close>\<close>
  | FormatMismatchTimestamp   \<comment> \<open>\<^verbatim>\<open>"Log format mismatch: timestamp"\<close>\<close>
  | EmptyLine                 \<comment> \<open>\<^verbatim>\<open>"Empty line"\<close>\<close>
  | InvalidFormat             \<comment> \<open>\<^verbatim>\<open>"Invalid format"\<close>\<close>
  | ReadError                 \<comment> \<open>an error of the input reader, from \<^verbatim>\<open>scanner.Err()\<close>\<close>

text \<open>\<^verbatim>\<open>parseLinePlain\<close>, the prefix: the check and the strip.\<close>

definition stripPrefix :: "Params \<Rightarrow> string \<Rightarrow> error + string" where
  "stripPrefix p line =
     (if Prefix p \<noteq> [] then
        (if \<not> HasPrefix line (Prefix p) then Inl FormatMismatchPrefix
         else Inr (TrimPrefix line (Prefix p)))
      else Inr line)"

text \<open>\<^verbatim>\<open>parseLinePlain\<close>, the timestamp: the tag it adds and the rest of the line.\<close>

definition stripTimestamp ::
  "'ts time_pkg \<Rightarrow> Params \<Rightarrow> string \<Rightarrow> string \<Rightarrow> Tags \<Rightarrow> error + (Tags \<times> string)" where
  "stripTimestamp tm p timestampFormat line tgs =
     (let tsFormat = calcTsFormat p in
      if tsFormat \<noteq> [] then
        (let fmtTokens = length (Split tsFormat CHR '' '');
             lineSplit = Split line CHR '' ''
         in if length lineSplit < fmtTokens then Inl FormatMismatchTimestamp
            else
              (let tsStr = Join (take fmtTokens lineSplit) '' ''
               in case time_Parse tm tsFormat tsStr of
                    None \<Rightarrow> Inl FormatMismatchTimestamp
                  | Some ts \<Rightarrow>
                      Inr (if timestampFormat = [] then Add ''timestamp'' [tsStr] tgs
                           else Add ''timestamp'' [time_Format tm ts timestampFormat] tgs,
                           TrimLeft (TrimPrefix line tsStr) CHR '' '')))
      else Inr (tgs, line))"

text \<open>
  \<^verbatim>\<open>parseLinePlain\<close>, the scan for bracket tokens. \<open>i\<close> is the byte index of the
  character \<open>c\<close> at the head of the rest of the line, \<open>tokenStart\<close> is \<open>-1\<close> outside a
  token; the result is \<^verbatim>\<open>msgStart\<close> and \<^verbatim>\<open>tagTokens\<close>. The source ranges over the
  runes of the line; both brackets are ASCII, so they sit at the same byte indices.
\<close>

fun scanTokens :: "string \<Rightarrow> nat \<Rightarrow> int \<Rightarrow> nat \<Rightarrow> string list \<Rightarrow> string \<Rightarrow> nat \<times> string list" where
  "scanTokens line i tokenStart msgStart tagTokens [] = (msgStart, tagTokens)"
| "scanTokens line i tokenStart msgStart tagTokens (c # cs) =
     (if tokenStart < 0 then
        (if c = CHR '']'' then (msgStart, tagTokens)
         else if c = CHR ''['' then scanTokens line (i + 1) (int i) msgStart tagTokens cs
         else scanTokens line (i + 1) tokenStart msgStart tagTokens cs)
      else
        (if c = CHR '']'' then
           scanTokens line (i + 1) (- 1) (i + 2)
             (tagTokens @ [take (i - nat (tokenStart + 1)) (drop (nat (tokenStart + 1)) line)]) cs
         else scanTokens line (i + 1) tokenStart msgStart tagTokens cs))"

text \<open>\<^verbatim>\<open>parseLinePlain\<close>, the body of the loop over \<^verbatim>\<open>tagTokens\<close>.\<close>

definition addToken :: "string \<Rightarrow> Tags \<Rightarrow> Tags" where
  "addToken t tgs =
     (let pairs = Split t CHR ''=''
      in if length pairs = 1 then Add ''tags'' [pairs ! 0] tgs
         else (let key = pairs ! 0;
                   values = Split (pairs ! 1) CHR '',''
               in Add key values tgs))"

definition parseLinePlain :: "'ts time_pkg \<Rightarrow> Params \<Rightarrow> string \<Rightarrow> string \<Rightarrow> error + Tags" where
  "parseLinePlain tm p line timestampFormat =
     (case stripPrefix p line of
        Inl e \<Rightarrow> Inl e
      | Inr line1 \<Rightarrow>
          (case stripTimestamp tm p timestampFormat line1 Map.empty of
             Inl e \<Rightarrow> Inl e
           | Inr (tgs, line2) \<Rightarrow>
               (case scanTokens line2 0 (- 1) 0 [] line2 of
                  (msgStart, tagTokens) \<Rightarrow>
                    if msgStart \<ge> length line2 then Inl EmptyLine
                    else Inr (fold addToken tagTokens
                                (Add ''msg'' [drop msgStart line2] tgs)))))"

section \<open>The stream converter \<^verbatim>\<open>PlainToJSON\<close>\<close>

text \<open>
  \<^verbatim>\<open>json.Marshal(&lineTags)\<close> encodes a nil map as \<^verbatim>\<open>null\<close> and a map as one JSON
  object; it has no error for a map of strings and string slices. The output sink
  is the list of the documents written, one line each.
\<close>

datatype json = JNull | JObject Tags

fun Marshal :: "Tags option \<Rightarrow> json" where
  "Marshal None = JNull"
| "Marshal (Some t) = JObject t"

datatype outcome = Returned "error option" | Panicked panic

text \<open>
  The first loop: \<open>s\<close> is the last line read, the second component is \<^verbatim>\<open>lineTags\<close>
  (\<open>None\<close> is the nil map), the third the lines not yet read.
\<close>

fun findHeader ::
  "'ts time_pkg \<Rightarrow> Params \<Rightarrow> string \<Rightarrow> string \<Rightarrow> string list
     \<Rightarrow> string \<times> Tags option \<times> string list" where
  "findHeader tm p tsf s [] = (s, None, [])"
| "findHeader tm p tsf s (l # ls) =
     (case parseLinePlain tm p l tsf of
        Inr tgs \<Rightarrow> (l, Some tgs, ls)
      | Inl e \<Rightarrow> findHeader tm p tsf l ls)"

text \<open>
  The second loop and the final flush. \<^verbatim>\<open>lineTags.Get("msg")\<close> is the empty string
  on a nil map, and \<^verbatim>\<open>lineTags.Set\<close> then panics on the write to it.
\<close>

fun convert ::
  "'ts time_pkg \<Rightarrow> Params \<Rightarrow> string \<Rightarrow> Tags option \<Rightarrow> json list \<Rightarrow> string list
     \<Rightarrow> json list \<times> outcome" where
  "convert tm p tsf lineTags output [] = (output @ [Marshal lineTags], Returned None)"
| "convert tm p tsf lineTags output (s # ss) =
     (case parseLinePlain tm p s tsf of
        Inr tgs \<Rightarrow> convert tm p tsf (Some tgs) (output @ [Marshal lineTags]) ss
      | Inl e \<Rightarrow>
          (case lineTags of
             None \<Rightarrow> (output, Panicked NilMapWrite)
           | Some lt \<Rightarrow>
               (case Get lt ''msg'' of
                  Inl pn \<Rightarrow> (output, Panicked pn)
                | Inr m \<Rightarrow>
                    convert tm p tsf (Some (Set ''msg'' [m @ [CHR 0x0A] @ s] lt)) output ss)))"

text \<open>
  The input is the list of lines that the scanner yields, with the error
  \<^verbatim>\<open>scanner.Err()\<close> reports once they are read.
\<close>

definition PlainToJSON ::
  "'ts time_pkg \<Rightarrow> Params \<Rightarrow> string list \<times> error option \<Rightarrow> string \<Rightarrow> json list \<times> outcome" where
  "PlainToJSON tm p input timestampFormat =
     (case findHeader tm p timestampFormat [] (fst input) of
        (s, lineTags, rest) \<Rightarrow>
          if s = [] then ([], Returned (snd input))
          else convert tm p timestampFormat lineTags [] rest)"

section \<open>Levels (type LevelSet)\<close>

record LevelSet =
  levels :: "string \<rightharpoonup> int"
  defaultLevel :: string

text \<open>
  In \<^verbatim>\<open>NewLevelSet\<close> the branch for a default that is not among the levels assigns
  to the parameter \<^verbatim>\<open>defaultLevel\<close>, so the field keeps its zero value.
\<close>

definition NewLevelSet :: "string list \<Rightarrow> string \<Rightarrow> LevelSet" where
  "NewLevelSet lvls dflt =
     (let m = fold (\<lambda>(i, lvl) m. m(ToUpper lvl \<mapsto> int i)) (enumerate 0 lvls) Map.empty;
          defaultNom = ToUpper dflt
      in case m defaultNom of
           None \<Rightarrow> \<lparr> levels = m, defaultLevel = [] \<rparr>
         | Some _ \<Rightarrow> \<lparr> levels = m, defaultLevel = dflt \<rparr>)"

definition Default :: "LevelSet \<Rightarrow> string" where
  "Default ls = defaultLevel ls"

text \<open>A Go map of ints reads 0 at a missing key.\<close>

definition level_index :: "LevelSet \<Rightarrow> string \<Rightarrow> int" where
  "level_index ls name = (case levels ls name of None \<Rightarrow> 0 | Some i \<Rightarrow> i)"

definition Less :: "LevelSet \<Rightarrow> string \<Rightarrow> string \<Rightarrow> bool" where
  "Less ls a b = (level_index ls (ToUpper a) < level_index ls (ToUpper b))"

definition Contains :: "LevelSet \<Rightarrow> string \<Rightarrow> bool" where
  "Contains ls lvl = (levels ls (ToUpper lvl) \<noteq> None)"

definition DefaultLevelSet :: LevelSet where
  "DefaultLevelSet =
     NewLevelSet [''DEBUG'', ''INFO'', ''NOTICE'', ''WARNING'', ''ERROR'', ''CRITICAL'',
                  ''ALERT'', ''EMERGENCY''] ''INFO''"

section \<open>The logger (type Logger)\<close>

text \<open>
  One call of \<^verbatim>\<open>Write\<close> on the output: the bytes of a plain line, or the encoding
  that \<^verbatim>\<open>json.Marshal\<close> gives of the store; the newline that \<^verbatim>\<open>Loutput\<close> appends
  follows either. The sink \<open>out\<close> is a buffer that takes every write, so \<^verbatim>\<open>Write\<close>
  has no error here. The mutex is left out: the model is sequential.
\<close>

datatype written = Bytes string | Encoded json

record Logger =
  tags :: Tags
  levelset :: "LevelSet option"
  level :: string
  levelTag :: string
  standardLevel :: string
  out :: "written list"
  params :: Params

definition DefineLevels :: "LevelSet \<Rightarrow> Logger \<Rightarrow> Logger" where
  "DefineLevels ls lg = lg\<lparr> levelset := Some ls, level := Default ls \<rparr>"

text \<open>\<^verbatim>\<open>this.levelset.Contains\<close> reads a field through the pointer: a panic if it is nil.\<close>

definition SetLevel :: "string \<Rightarrow> Logger \<Rightarrow> panic + Logger" where
  "SetLevel lvl lg =
     (if lvl = [] then Inr (lg\<lparr> level := [] \<rparr>)
      else case levelset lg of
             None \<Rightarrow> Inl NilDereference
           | Some ls \<Rightarrow>
               if \<not> Contains ls lvl then Inr (lg\<lparr> level := [] \<rparr>)
               else Inr (lg\<lparr> level := ToUpper lvl \<rparr>))"

definition SetLevelTag :: "string \<Rightarrow> Logger \<Rightarrow> Logger" where
  "SetLevelTag tag lg = lg\<lparr> levelTag := tag \<rparr>"

definition SetStandardLevel :: "string \<Rightarrow> Logger \<Rightarrow> Logger" where
  "SetStandardLevel lvl lg = lg\<lparr> standardLevel := lvl \<rparr>"

definition New :: "written list \<Rightarrow> string \<Rightarrow> int \<Rightarrow> Logger" where
  "New sink pre flag =
     (DefineLevels DefaultLevelSet
        \<lparr> tags = Map.empty, levelset = None, level = [], levelTag = [], standardLevel = [],
          out = sink, params = DefaultParams\<lparr> Prefix := pre, Flag := flag \<rparr> \<rparr>)
       \<lparr> levelTag := ''level'' \<rparr>"

definition SetTimestampFormatType :: "int \<Rightarrow> Logger \<Rightarrow> Logger" where
  "SetTimestampFormatType tsFormatType lg =
     lg\<lparr> params := (params lg)\<lparr> TimestampFormatType := tsFormatType, TimestampFormat := [] \<rparr> \<rparr>"

definition SetFormat :: "int \<Rightarrow> Logger \<Rightarrow> Logger" where
  "SetFormat format lg =
     (let t = (if Format (params lg) = FormatJSON \<and> format = FormatPlain
               then Del ''msg'' (Del ''timestamp'' (tags lg)) else tags lg)
      in lg\<lparr> tags := t, params := (params lg)\<lparr> Format := format \<rparr> \<rparr>)"

definition AddTag :: "string \<Rightarrow> string list \<Rightarrow> Logger \<Rightarrow> Logger" where
  "AddTag key value lg =
     lg\<lparr> tags := Add (if key = [] then ''tags'' else key) value (tags lg) \<rparr>"

definition SetTag :: "string \<Rightarrow> string list \<Rightarrow> Logger \<Rightarrow> Logger" where
  "SetTag key value lg =
     lg\<lparr> tags := Set (if key = [] then ''tags'' else key) value (tags lg) \<rparr>"

text \<open>
  The body of the loop of \<^verbatim>\<open>Loutput\<close> over the store, in plain format: the
  bracket tokens that one key and its value add to \<^verbatim>\<open>lineTags\<close>.
\<close>

definition bracketTokens :: "string \<Rightarrow> tag_value \<Rightarrow> string list" where
  "bracketTokens k v =
     (case v of
        Str vs \<Rightarrow>
          (if k = ''tags'' then [''['' @ vs @ '']'']
           else [''['' @ k @ ''='' @ vs @ '']''])
      | Strs vs \<Rightarrow>
          (if k = ''tags'' then map (\<lambda>v0. ''['' @ v0 @ '']'') vs
           else [''['' @ k @ ''='' @ Join vs '','' @ '']'']))"

text \<open>
  Whether \<^verbatim>\<open>Loutput\<close> returns at once (the record is below the current level), and
  whether it sets the level tag for the time of the call.
\<close>

definition discarded :: "Logger \<Rightarrow> string \<Rightarrow> bool" where
  "discarded lg lvl =
     (lvl \<noteq> [] \<and> level lg \<noteq> []
      \<and> (case levelset lg of None \<Rightarrow> False | Some ls \<Rightarrow> Less ls lvl (level lg)))"

definition setsLevelTag :: "Logger \<Rightarrow> string \<Rightarrow> bool" where
  "setsLevelTag lg lvl =
     (lvl \<noteq> [] \<and> level lg \<noteq> [] \<and> levelTag lg \<noteq> []
      \<and> (case levelset lg of None \<Rightarrow> False | Some ls \<Rightarrow> Contains ls lvl))"

text \<open>
  \<^verbatim>\<open>Loutput\<close>, the timestamp: \<open>now0\<close> is the reading of \<^verbatim>\<open>time.Now()\<close>, the
  result is \<^verbatim>\<open>nowStr\<close>.
\<close>

definition renderNow :: "'ts time_pkg \<Rightarrow> 'ts \<Rightarrow> Params \<Rightarrow> string" where
  "renderNow tm now0 p =
     (let now = (if Flag p AND LUTC \<noteq> 0 then time_UTC tm now0 else now0);
          tsFormat = calcTsFormat p
      in time_Format tm now tsFormat)"

text \<open>
  \<^verbatim>\<open>Loutput\<close>, the plain format. \<open>ks\<close> is the order in which the \<^verbatim>\<open>range\<close> over the
  store visits its keys, which Go leaves open. \<^verbatim>\<open>sort.Strings\<close> orders strings
  bytewise, as the order on \<^typ>\<open>string\<close> does.
\<close>

definition lineTags :: "string list \<Rightarrow> Tags \<Rightarrow> string list" where
  "lineTags ks t =
     sort (concat (map (\<lambda>k. case t k of None \<Rightarrow> [] | Some v \<Rightarrow> bracketTokens k v) ks))"

definition plainLine :: "Params \<Rightarrow> string \<Rightarrow> string list \<Rightarrow> Tags \<Rightarrow> string \<Rightarrow> string" where
  "plainLine p nowStr ks t s =
     (let line0 = (if nowStr \<noteq> [] then [nowStr] else []);
          line1 = line0 @ lineTags ks t;
          line2 = (if s \<noteq> [] then line1 @ [s] else line1)
      in Prefix p @ Join line2 '' '')"

text \<open>
  \<^verbatim>\<open>Loutput\<close>. The deferred \<^verbatim>\<open>Del\<close> of the level tag runs after the write. With a
  format that is neither constant, \<^verbatim>\<open>b\<close> stays empty and only the newline is
  written.
\<close>

definition Loutput ::
  "'ts time_pkg \<Rightarrow> 'ts \<Rightarrow> string list \<Rightarrow> Logger \<Rightarrow> string \<Rightarrow> string \<Rightarrow> Logger \<times> error option" where
  "Loutput tm now0 ks lg lvl s =
     (let nowStr = renderNow tm now0 (params lg)
      in if discarded lg lvl then (lg, None)
         else
           (let t1 = (if setsLevelTag lg lvl then Set (levelTag lg) [ToUpper lvl] (tags lg)
                      else tags lg);
                t2 = (if Format (params lg) = FormatJSON then
                        Set ''msg'' [s] (if nowStr \<noteq> [] then Set ''timestamp'' [nowStr] t1 else t1)
                      else t1);
                b = (if Format (params lg) = FormatJSON then Encoded (JObject t2)
                     else if Format (params lg) = FormatPlain then
                       Bytes (plainLine (params lg) nowStr ks t2 s)
                     else Bytes []);
                t3 = (if setsLevelTag lg lvl then Del (levelTag lg) t2 else t2)
            in (lg\<lparr> tags := t3, out := out lg @ [b] \<rparr>, None)))"

definition Output ::
  "'ts time_pkg \<Rightarrow> 'ts \<Rightarrow> string list \<Rightarrow> Logger \<Rightarrow> string \<Rightarrow> Logger \<times> error option" where
  "Output tm now0 ks lg s = Loutput tm now0 ks lg (standardLevel lg) s"

section \<open>The tag store on the heap: slices and their backing arrays\<close>

text \<open>
  A \<^verbatim>\<open>[]string\<close> is a header (address of the backing array, length, capacity); the
  code only ever reslices from index 0. The heap maps an address to the contents
  of the array there, all \<open>cap\<close> elements of it. \<^verbatim>\<open>append\<close> writes in place while the
  capacity lasts and moves to a new array otherwise; the capacity of the new array
  is the runtime's choice, the parameter \<open>grow\<close> (never below what is needed).
\<close>

record slice =
  ptr :: nat
  len :: nat
  cap :: nat

datatype iface = IString string | ISlice slice

type_synonym HTags = "string \<rightharpoonup> iface"

record heap =
  arrays :: "nat \<Rightarrow> string list"
  free :: nat

definition alloc :: "string list \<Rightarrow> heap \<Rightarrow> nat \<times> heap" where
  "alloc xs h = (free h, h\<lparr> arrays := (arrays h)(free h := xs), free := free h + 1 \<rparr>)"

definition append_slice ::
  "(nat \<Rightarrow> nat \<Rightarrow> nat) \<Rightarrow> slice \<Rightarrow> string \<Rightarrow> heap \<Rightarrow> slice \<times> heap" where
  "append_slice grow sl v h =
     (if len sl < cap sl then
        (sl\<lparr> len := len sl + 1 \<rparr>,
         h\<lparr> arrays := (arrays h)(ptr sl := (arrays h (ptr sl))[len sl := v]) \<rparr>)
      else
        (let newcap = max (len sl + 1) (grow (cap sl) (len sl + 1));
             (a, h') = alloc (take (len sl) (arrays h (ptr sl)) @ [v]
                                @ replicate (newcap - (len sl + 1)) []) h
         in (\<lparr> ptr = a, len = len sl + 1, cap = newcap \<rparr>, h')))"

text \<open>\<^verbatim>\<open>Tags.Add\<close>, \<^verbatim>\<open>Pop\<close>, \<^verbatim>\<open>Del\<close>, \<^verbatim>\<open>Set\<close> and \<^verbatim>\<open>GetAll\<close> once more, on headers.\<close>

definition hAdd1 :: "(nat \<Rightarrow> nat \<Rightarrow> nat) \<Rightarrow> string \<Rightarrow> string \<Rightarrow> heap \<times> HTags \<Rightarrow> heap \<times> HTags" where
  "hAdd1 grow key v ht =
     (case ht of (h, t) \<Rightarrow>
        (case t key of
           None \<Rightarrow> (h, t(key \<mapsto> IString v))
         | Some (IString vs) \<Rightarrow>
             (case alloc [vs, v] h of
                (a, h') \<Rightarrow> (h', t(key \<mapsto> ISlice \<lparr> ptr = a, len = 2, cap = 2 \<rparr>)))
         | Some (ISlice sl) \<Rightarrow>
             (case append_slice grow sl v h of
                (sl', h') \<Rightarrow> (h', t(key \<mapsto> ISlice sl')))))"

definition hAdd :: "(nat \<Rightarrow> nat \<Rightarrow> nat) \<Rightarrow> string \<Rightarrow> string list \<Rightarrow> heap \<times> HTags \<Rightarrow> heap \<times> HTags" where
  "hAdd grow key value ht = fold (hAdd1 grow key) value ht"

definition hPop :: "string \<Rightarrow> heap \<times> HTags \<Rightarrow> heap \<times> HTags" where
  "hPop key ht =
     (case ht of (h, t) \<Rightarrow>
        (case t key of
           None \<Rightarrow> (h, t)
         | Some (IString vs) \<Rightarrow> (h, t(key := None))
         | Some (ISlice sl) \<Rightarrow>
             if len sl \<le> 1 then (h, t(key := None))
             else if len sl = 2 then (h, t(key \<mapsto> IString (arrays h (ptr sl) ! 0)))
             else (h, t(key \<mapsto> ISlice (sl\<lparr> len := len sl - 1 \<rparr>)))))"

definition hDel :: "string \<Rightarrow> heap \<times> HTags \<Rightarrow> heap \<times> HTags" where
  "hDel key ht = (case ht of (h, t) \<Rightarrow> (h, t(key := None)))"

definition hSet :: "(nat \<Rightarrow> nat \<Rightarrow> nat) \<Rightarrow> string \<Rightarrow> string list \<Rightarrow> heap \<times> HTags \<Rightarrow> heap \<times> HTags" where
  "hSet grow key value ht = hAdd grow key value (hDel key ht)"

definition hGetAll :: "heap \<Rightarrow> HTags \<Rightarrow> string \<Rightarrow> string list" where
  "hGetAll h t key =
     (case t key of
        Some (IString vs) \<Rightarrow> [vs]
      | Some (ISlice sl) \<Rightarrow> take (len sl) (arrays h (ptr sl))
      | None \<Rightarrow> [])"

text \<open>
  The tag methods of \<^verbatim>\<open>Logger\<close> on the store of one logger, and \<^verbatim>\<open>Logger.Copy\<close>:
  the new logger gets a new map, filled by \<^verbatim>\<open>tl.tags[k] = v\<close> from the old one.
  The assignment copies the interface value, for a slice its header. (The other
  fields of the logger are copied by \<^verbatim>\<open>tl := *this\<close> and hold no slices.)
\<close>

definition tagsKey :: "string \<Rightarrow> string" where
  "tagsKey key = (if key = [] then ''tags'' else key)"

definition hAddTag :: "(nat \<Rightarrow> nat \<Rightarrow> nat) \<Rightarrow> string \<Rightarrow> string list \<Rightarrow> heap \<times> HTags \<Rightarrow> heap \<times> HTags" where
  "hAddTag grow key value ht = hAdd grow (tagsKey key) value ht"

definition hPopTag :: "string \<Rightarrow> heap \<times> HTags \<Rightarrow> heap \<times> HTags" where
  "hPopTag key ht = hPop (tagsKey key) ht"

definition hPushTag :: "(nat \<Rightarrow> nat \<Rightarrow> nat) \<Rightarrow> string \<Rightarrow> string list \<Rightarrow> heap \<times> HTags \<Rightarrow> heap \<times> HTags" where
  "hPushTag grow key value ht = hAdd grow (tagsKey key) value ht"

definition hSetTag :: "(nat \<Rightarrow> nat \<Rightarrow> nat) \<Rightarrow> string \<Rightarrow> string list \<Rightarrow> heap \<times> HTags \<Rightarrow> heap \<times> HTags" where
  "hSetTag grow key value ht = hSet grow (tagsKey key) value ht"

definition hDelTag :: "string \<Rightarrow> heap \<times> HTags \<Rightarrow> heap \<times> HTags" where
  "hDelTag key ht = hDel key (if key = [] then hDel ''tags'' ht else ht)"

definition hGetTags :: "heap \<Rightarrow> HTags \<Rightarrow> string \<Rightarrow> string list" where
  "hGetTags h t key = hGetAll h t (tagsKey key)"

definition Logger_Copy :: "HTags \<Rightarrow> HTags" where
  "Logger_Copy t = (\<lambda>k. case t k of None \<Rightarrow> None | Some v \<Rightarrow> Some v)"

definition heap0 :: heap where
  "heap0 = \<lparr> arrays = (\<lambda>a. []), free = 0 \<rparr>"

text \<open>
  What a store on the heap shows: every slice read through its header. A store
  owns its arrays when each slice header lies within an array of the heap and no
  two keys point to the same array; the operations above keep that, and
  \<^verbatim>\<open>Logger.Copy\<close> makes two stores that share every array.
\<close>

fun abs_value :: "heap \<Rightarrow> iface \<Rightarrow> tag_value" where
  "abs_value h (IString s) = Str s"
| "abs_value h (ISlice sl) = Strs (take (len sl) (arrays h (ptr sl)))"

definition abs_tags :: "heap \<times> HTags \<Rightarrow> Tags" where
  "abs_tags ht = (case ht of (h, t) \<Rightarrow> (\<lambda>k. map_option (abs_value h) (t k)))"

definition slice_ok :: "heap \<Rightarrow> slice \<Rightarrow> bool" where
  "slice_ok h sl = (ptr sl < free h \<and> len sl \<le> cap sl \<and> length (arrays h (ptr sl)) = cap sl)"

definition owns :: "heap \<times> HTags \<Rightarrow> bool" where
  "owns ht = (case ht of (h, t) \<Rightarrow>
     (\<forall>k sl. t k = Some (ISlice sl) \<longrightarrow> slice_ok h sl)
     \<and> (\<forall>k k' sl sl'. k \<noteq> k' \<longrightarrow> t k = Some (ISlice sl) \<longrightarrow> t k' = Some (ISlice sl')
           \<longrightarrow> ptr sl \<noteq> ptr sl'))"

section \<open>A configuration without timestamp\<close>

text \<open>
  \<^verbatim>\<open>Params{Format: FormatPlain, TimestampFormatType: TimestampFormatTypeStd}\<close>: no
  layout, no flags, no prefix; \<^verbatim>\<open>calcTsFormat\<close> is empty for it.
\<close>

definition NoTimestamp :: Params where
  "NoTimestamp = DefaultParams\<lparr> TimestampFormat := [], Flag := 0 \<rparr>"

section \<open>The token rule as the specification words it\<close>

text \<open>
  Not from the source: the reading of claim C6, which cuts a token at its first
  \<^verbatim>\<open>=\<close> only and keeps all that follows as the values. It is here to be compared
  with \<^const>\<open>addToken\<close>.
\<close>

definition addToken_claimed :: "string \<Rightarrow> Tags \<Rightarrow> Tags" where
  "addToken_claimed t tgs =
     (if CHR ''='' \<notin> set t then Add ''tags'' [t] tgs
      else Add (takeWhile (\<lambda>c. c \<noteq> CHR ''='') t)
               (Split (tl (dropWhile (\<lambda>c. c \<noteq> CHR ''='') t)) CHR '','') tgs)"

section \<open>Stores built from \<^verbatim>\<open>Add\<close> and \<^verbatim>\<open>Set\<close>\<close>

inductive built :: "Tags \<Rightarrow> bool" where
  built_empty: "built Map.empty"
| built_Add: "built t \<Longrightarrow> built (Add k vs t)"
| built_Set: "built t \<Longrightarrow> built (Set k vs t)"

section \<open>A time package for the examples\<close>

text \<open>
  An implementation of the three functions for the one layout
  \<^verbatim>\<open>2006/01/02 15:04:05\<close>, with every field at its full width. A time value is
  the list of its six fields. The general theorems below hold for every time
  package; this one only instantiates them.
\<close>

definition digit_val :: "char \<Rightarrow> nat option" where
  "digit_val c =
     (if CHR ''0'' \<le> c \<and> c \<le> CHR ''9'' then Some (of_char c - (48::nat)) else None)"

fun atoi :: "nat \<Rightarrow> string \<Rightarrow> nat option" where
  "atoi acc [] = Some acc"
| "atoi acc (c # cs) =
     (case digit_val c of None \<Rightarrow> None | Some d \<Rightarrow> atoi (10 * acc + d) cs)"

definition std_fields :: "string \<Rightarrow> string list" where
  "std_fields v =
     [take 4 v, take 2 (drop 5 v), take 2 (drop 8 v),
      take 2 (drop 11 v), take 2 (drop 14 v), take 2 (drop 17 v)]"

definition std_Parse :: "string \<Rightarrow> string \<Rightarrow> nat list option" where
  "std_Parse layout v =
     (if layout = TimestampFormatStd \<and> length v = 19
         \<and> map (\<lambda>i. v ! i) [4, 7, 10, 13, 16] = ''// ::''
      then
        (let ns = map (atoi 0) (std_fields v)
         in if list_all (\<lambda>n. n \<noteq> None) ns then
              (let fs = map the ns
               in if 1 \<le> fs ! 1 \<and> fs ! 1 \<le> 12 \<and> 1 \<le> fs ! 2 \<and> fs ! 2 \<le> 31
                     \<and> fs ! 3 < 24 \<and> fs ! 4 < 60 \<and> fs ! 5 < 60
                  then Some fs else None)
            else None)
      else None)"

definition show2 :: "nat \<Rightarrow> string" where
  "show2 n = [char_of (48 + n div 10 mod 10), char_of (48 + n mod 10)]"

definition std_Format :: "nat list \<Rightarrow> string \<Rightarrow> string" where
  "std_Format fs layout =
     (if layout = TimestampFormatStd \<and> length fs = 6 then
        show2 (fs ! 0 div 100) @ show2 (fs ! 0) @ ''/'' @ show2 (fs ! 1) @ ''/'' @ show2 (fs ! 2)
          @ '' '' @ show2 (fs ! 3) @ '':'' @ show2 (fs ! 4) @ '':'' @ show2 (fs ! 5)
      else [])"

definition std_time :: "(nat list) time_pkg" where
  "std_time = \<lparr> time_Parse = std_Parse, time_Format = std_Format, time_UTC = (\<lambda>t. t) \<rparr>"

section \<open>Loggers of the examples\<close>

text \<open>
  \<^verbatim>\<open>New(out, "", 0)\<close> on an empty buffer, then
  \<^verbatim>\<open>SetTimestampFormatType(TimestampFormatTypeStd)\<close>: plain format, no prefix, and
  with no flags no timestamp layout. The ordering context of four levels, with any
  default \<open>d\<close>.
\<close>

definition PlainLogger :: Logger where
  "PlainLogger = SetTimestampFormatType TimestampFormatTypeStd (New [] [] 0)"

definition Levels4 :: "string \<Rightarrow> LevelSet" where
  "Levels4 d = NewLevelSet [''DEBUG'', ''INFO'', ''WARNING'', ''ERROR''] d"

section \<open>Properties of the tag store\<close>

lemma multi_Add1: "multi (t k) \<Longrightarrow> multi (Add1 key v t k)"
  by (cases "t key" rule: multi.cases) (auto simp: Add1_def)

lemma multi_Add: "multi (t k) \<Longrightarrow> multi (Add key value t k)"
  unfolding Add_def by (induction "value" arbitrary: t) (simp_all add: multi_Add1)

lemma multi_Del: "multi (t k) \<Longrightarrow> multi (Del key t k)"
  by (simp add: Del_def)

lemma multi_Set: "multi (t k) \<Longrightarrow> multi (Set key value t k)"
  by (simp add: Set_def multi_Add multi_Del)

lemma multi_Merge1: "multi (t k) \<Longrightarrow> multi (Merge1 key v t k)"
  by (simp add: Merge1_def Let_def multi_Add)

lemma multi_Merge: "multi (t k) \<Longrightarrow> multi (Merge key value t k)"
  unfolding Merge_def by (induction "value" arbitrary: t) (simp_all add: multi_Merge1)

lemma multi_Pop: "multi (t k) \<Longrightarrow> multi (Pop key t k)"
  by (cases "t key" rule: multi.cases) (auto simp: Pop_def)

text \<open>
  Claim C9. For every key \<open>k\<close> and value \<open>v\<close>, \<^verbatim>\<open>Add(k, v)\<close> followed by \<^verbatim>\<open>Pop(k)\<close>
  gives back exactly the store from before the \<^verbatim>\<open>Add\<close>, whether \<open>k\<close> was absent,
  held a single string, or held a sequence of several values (two or more, as every
  sequence that the operations of the store build).
\<close>

theorem Add_Pop_restores:
  assumes "multi (t k)"
  shows "Pop k (Add k [v] t) = t"
proof (cases "t k")
  case None
  then show ?thesis by (auto simp: Add_def Add1_def Pop_def)
next
  case (Some tv)
  show ?thesis
  proof (cases tv)
    case (Str s)
    with Some show ?thesis by (auto simp: Add_def Add1_def Pop_def)
  next
    case (Strs vs)
    with Some assms have "2 \<le> length vs" by simp
    with Some Strs show ?thesis by (auto simp: Add_def Add1_def Pop_def)
  qed
qed

theorem Add_Pop_restores_witness:
  "multi (Map.empty ''k'')
   \<and> Pop ''k'' (Add ''k'' [''v''] Map.empty) = Map.empty
   \<and> multi ([''k'' \<mapsto> Str ''a''] ''k'')
   \<and> Pop ''k'' (Add ''k'' [''v''] [''k'' \<mapsto> Str ''a'']) = [''k'' \<mapsto> Str ''a'']
   \<and> multi ([''k'' \<mapsto> Strs [''a'', ''b'']] ''k'')
   \<and> Pop ''k'' (Add ''k'' [''v''] [''k'' \<mapsto> Strs [''a'', ''b'']])
       = [''k'' \<mapsto> Strs [''a'', ''b'']]"
  using Add_Pop_restores [of Map.empty "''k''" "''v''"]
    Add_Pop_restores [of "[''k'' \<mapsto> Str ''a'']" "''k''" "''v''"]
    Add_Pop_restores [of "[''k'' \<mapsto> Strs [''a'', ''b'']]" "''k''" "''v''"]
  by simp

section \<open>Properties of the line parser\<close>

lemma Prefix_DefaultParams: "Prefix DefaultParams = []"
  by (simp add: DefaultParams_def)

lemma calcTsFormat_DefaultParams: "calcTsFormat DefaultParams = TimestampFormatStd"
  by (simp add: calcTsFormat_def DefaultParams_def TimestampFormatStd_def)

lemma Prefix_NoTimestamp: "Prefix NoTimestamp = []"
  by (simp add: NoTimestamp_def DefaultParams_def)

lemma calcTsFormat_NoTimestamp: "calcTsFormat NoTimestamp = []"
  by (simp add: calcTsFormat_def NoTimestamp_def DefaultParams_def GenTimestampFormat_def
      TimestampFormatTypeStd_def TimestampFormatTypeISO_def Ldate_def Ltime_def)

lemma std_Parse_26:
  "std_Parse TimestampFormatStd ''2014/07/29 18:34:26'' = Some [2014, 7, 29, 18, 34, 26]"
  by (simp add: std_Parse_def std_fields_def digit_val_def TimestampFormatStd_def)

lemma std_Parse_27:
  "std_Parse TimestampFormatStd ''2014/07/29 18:34:27'' = Some [2014, 7, 29, 18, 34, 27]"
  by (simp add: std_Parse_def std_fields_def digit_val_def TimestampFormatStd_def)

text \<open>The scan inside a token runs to the closing bracket and puts \<^verbatim>\<open>msgStart\<close> two past it.\<close>

lemma scanTokens_inside:
  "CHR '']'' \<notin> set t \<Longrightarrow> 0 \<le> tokenStart \<Longrightarrow>
   scanTokens line i tokenStart m toks (t @ CHR '']'' # rest)
     = scanTokens line (i + length t + 1) (- 1) (i + length t + 2)
         (toks @ [take (i + length t - nat (tokenStart + 1)) (drop (nat (tokenStart + 1)) line)])
         rest"
  by (induction t arbitrary: i) auto

lemma scanTokens_token:
  "CHR '']'' \<notin> set t \<Longrightarrow>
   scanTokens line i (- 1) m toks (''['' @ t @ '']'' @ rest)
     = scanTokens line (i + length t + 2) (- 1) (i + length t + 3)
         (toks @ [take (length t) (drop (i + 1) line)]) rest"
  using scanTokens_inside [of t "int i" line "i + 1" m toks rest]
  by (simp add: nat_add_distrib numeral_3_eq_3)

lemma scanTokens_joined:
  "ts \<noteq> [] \<Longrightarrow> \<forall>t\<in>set ts. CHR '']'' \<notin> set t \<Longrightarrow>
   fst (scanTokens line i (- 1) m toks (Join (map (\<lambda>t. ''['' @ t @ '']'') ts) '' ''))
     = i + length (Join (map (\<lambda>t. ''['' @ t @ '']'') ts) '' '') + 1"
proof (induction ts arbitrary: i m toks rule: induct_list012)
  case 1
  then show ?case by simp
next
  case (2 t)
  then show ?case using scanTokens_token [of t line i m toks "[]"] by simp
next
  case (3 t u ts)
  have "fst (scanTokens line i (- 1) m toks
               (''['' @ t @ '']'' @ ('' '' @ Join (map (\<lambda>t. ''['' @ t @ '']'') (u # ts)) '' '')))
          = i + length t + 3 + length (Join (map (\<lambda>t. ''['' @ t @ '']'') (u # ts)) '' '') + 1"
    using 3 by (subst scanTokens_token) auto
  then show ?case by simp
qed

text \<open>
  Claim C10. When what is left of a line after the prefix and the timestamp is one
  or more bracket tokens \<^verbatim>\<open>[t1] [t2] ... [tn]\<close> and nothing else, \<^verbatim>\<open>msgStart\<close> ends one
  past the end of that text (two past the last closing bracket), and
  \<^verbatim>\<open>parseLinePlain\<close> fails with \<^verbatim>\<open>"Empty line"\<close>: it returns no record with the tags and an
  empty message.
\<close>

theorem parseLinePlain_only_tokens_EmptyLine:
  assumes "stripPrefix p line = Inr line1"
      and "stripTimestamp tm p tsf line1 Map.empty
             = Inr (tgs, Join (map (\<lambda>t. ''['' @ t @ '']'') ts) '' '')"
      and "ts \<noteq> []"
      and "\<forall>t\<in>set ts. CHR '']'' \<notin> set t"
  shows "fst (scanTokens (Join (map (\<lambda>t. ''['' @ t @ '']'') ts) '' '') 0 (- 1) 0 []
                (Join (map (\<lambda>t. ''['' @ t @ '']'') ts) '' ''))
           = length (Join (map (\<lambda>t. ''['' @ t @ '']'') ts) '' '') + 1
         \<and> parseLinePlain tm p line tsf = Inl EmptyLine"
proof -
  let ?c = "Join (map (\<lambda>t. ''['' @ t @ '']'') ts) '' ''"
  have m: "fst (scanTokens ?c 0 (- 1) 0 [] ?c) = length ?c + 1"
    using scanTokens_joined [OF assms(3,4), of ?c 0 0 "[]"] by simp
  then have "parseLinePlain tm p line tsf = Inl EmptyLine"
    using assms(1,2) by (auto simp: parseLinePlain_def split: prod.splits)
  with m show ?thesis by simp
qed

lemma stripTimestamp_header_27:
  "stripTimestamp std_time DefaultParams [] ''2014/07/29 18:34:27 [job_id=123459]'' Map.empty
     = Inr ([''timestamp'' \<mapsto> Str ''2014/07/29 18:34:27''], ''[job_id=123459]'')"
  using std_Parse_27
  by (simp add: stripTimestamp_def calcTsFormat_DefaultParams Let_def std_time_def TrimLeft_def
      TrimPrefix_def HasPrefix_def Add_def Add1_def TimestampFormatStd_def)

theorem parseLinePlain_only_tokens_EmptyLine_witness:
  "stripPrefix DefaultParams ''2014/07/29 18:34:27 [job_id=123459]''
     = Inr ''2014/07/29 18:34:27 [job_id=123459]''
   \<and> stripTimestamp std_time DefaultParams [] ''2014/07/29 18:34:27 [job_id=123459]'' Map.empty
       = Inr ([''timestamp'' \<mapsto> Str ''2014/07/29 18:34:27''],
              Join (map (\<lambda>t. ''['' @ t @ '']'') [''job_id=123459'']) '' '')
   \<and> [''job_id=123459''] \<noteq> []
   \<and> CHR '']'' \<notin> set ''job_id=123459''
   \<and> fst (scanTokens ''[job_id=123459]'' 0 (- 1) 0 [] ''[job_id=123459]'') = 16
   \<and> parseLinePlain std_time DefaultParams ''2014/07/29 18:34:27 [job_id=123459]'' []
       = Inl EmptyLine"
  using parseLinePlain_only_tokens_EmptyLine
    [of DefaultParams "''2014/07/29 18:34:27 [job_id=123459]''"
        "''2014/07/29 18:34:27 [job_id=123459]''"
        std_time "[]" "[''timestamp'' \<mapsto> Str ''2014/07/29 18:34:27'']" "[''job_id=123459'']"]
  by (simp add: stripPrefix_def Prefix_DefaultParams stripTimestamp_header_27)

section \<open>Properties of the stream converter\<close>

lemma multi_addToken: "multi (t k) \<Longrightarrow> multi (addToken tok t k)"
  by (simp add: addToken_def Let_def multi_Add)

lemma multi_fold_addToken: "multi (t k) \<Longrightarrow> multi (fold addToken toks t k)"
  by (induction toks arbitrary: t) (simp_all add: multi_addToken)

lemma multi_stripTimestamp:
  "stripTimestamp tm p tsf line t0 = Inr (t, rest) \<Longrightarrow> multi (t0 k) \<Longrightarrow> multi (t k)"
  by (auto simp: stripTimestamp_def Let_def multi_Add split: if_splits option.splits)

lemma multi_parseLinePlain: "parseLinePlain tm p line tsf = Inr t \<Longrightarrow> multi (t k)"
  by (auto simp: parseLinePlain_def multi_fold_addToken multi_Add
      split: sum.splits prod.splits if_splits dest!: multi_stripTimestamp [where k = k])

lemma Get_multi: "multi (t k) \<Longrightarrow> \<exists>m. Get t k = Inr m"
  by (cases "t k" rule: multi.cases) (auto simp: Get_def split: list.splits)

lemma Get_Set: "Get (Set k [x] t) k = Inr x"
  by (simp add: Get_def Set_def Del_def Add_def Add1_def)

lemma Set_Set: "Set k [y] (Set k [x] t) = Set k [y] t"
  by (simp add: Set_def Del_def Add_def Add1_def)

lemma multi_Set_single: "multi (Set k [x] t k)"
  by (simp add: Set_def Del_def Add_def Add1_def)

text \<open>A run of lines that all fail to parse is appended to the pending message.\<close>

lemma convert_run:
  "cs \<noteq> [] \<Longrightarrow> \<forall>c\<in>set cs. \<exists>e. parseLinePlain tm p c tsf = Inl e \<Longrightarrow>
   Get lt ''msg'' = Inr m \<Longrightarrow>
   convert tm p tsf (Some lt) acc (cs @ rest)
     = convert tm p tsf (Some (Set ''msg'' [m @ concat (map (\<lambda>c. CHR 0x0A # c) cs)] lt)) acc rest"
proof (induction cs arbitrary: lt m)
  case Nil
  then show ?case by simp
next
  case (Cons c cs)
  from Cons.prems obtain e where e: "parseLinePlain tm p c tsf = Inl e" by auto
  show ?case
  proof (cases "cs = []")
    case True
    with e Cons.prems show ?thesis by simp
  next
    case False
    have "convert tm p tsf (Some lt) acc ((c # cs) @ rest)
            = convert tm p tsf (Some (Set ''msg'' [m @ [CHR 0x0A] @ c] lt)) acc (cs @ rest)"
      using e Cons.prems(3) by simp
    also have "\<dots> = convert tm p tsf
          (Some (Set ''msg'' [(m @ [CHR 0x0A] @ c) @ concat (map (\<lambda>c. CHR 0x0A # c) cs)]
                   (Set ''msg'' [m @ [CHR 0x0A] @ c] lt))) acc rest"
      using Cons.prems(2) False by (intro Cons.IH) (auto simp: Get_Set)
    finally show ?thesis by (simp add: Set_Set)
  qed
qed

text \<open>With a pending record the second loop neither panics nor returns an error.\<close>

lemma convert_returns:
  "multi (lt ''msg'') \<Longrightarrow> snd (convert tm p tsf (Some lt) acc ss) = Returned None"
proof (induction ss arbitrary: lt acc)
  case Nil
  then show ?case by simp
next
  case (Cons s ss)
  show ?case
  proof (cases "parseLinePlain tm p s tsf")
    case (Inl e)
    from Get_multi [of lt "''msg''"] Cons.prems obtain m where m: "Get lt ''msg'' = Inr m"
      by blast
    with Inl show ?thesis by (simp add: Cons.IH multi_Set_single)
  next
    case (Inr t)
    then show ?thesis by (simp add: Cons.IH multi_parseLinePlain)
  qed
qed

lemma findHeader_cases:
  "findHeader tm p tsf s ls = (s', lt, rest) \<Longrightarrow>
   (lt = None \<and> rest = []) \<or> (\<exists>t. lt = Some t \<and> parseLinePlain tm p s' tsf = Inr t)"
  by (induction ls arbitrary: s) (auto split: sum.splits)

lemma PlainToJSON_returns:
  "snd (PlainToJSON tm p (ls, serr) tsf) = Returned None
   \<or> snd (PlainToJSON tm p (ls, serr) tsf) = Returned serr"
proof (cases "findHeader tm p tsf [] ls")
  case (fields s lt rest)
  from findHeader_cases [OF fields] show ?thesis
    using fields by (auto simp: PlainToJSON_def convert_returns multi_parseLinePlain)
qed

subsection \<open>Lines of the examples\<close>

lemma Split_TimestampFormatStd:
  "Split TimestampFormatStd CHR '' '' = [''2006/01/02'', ''15:04:05'']"
  by (simp add: TimestampFormatStd_def)

lemma TimestampFormatStd_nonempty: "TimestampFormatStd \<noteq> []"
  by (simp add: TimestampFormatStd_def)

text \<open>A line of one word has fewer tokens than the standard layout.\<close>

lemma parseLinePlain_one_word:
  assumes "CHR '' '' \<notin> set l"
  shows "parseLinePlain tm DefaultParams l tsf = Inl FormatMismatchTimestamp"
proof -
  from assms have "Split l CHR '' '' = [l]"
    by (induction l) auto
  then show ?thesis
    by (simp add: parseLinePlain_def stripPrefix_def stripTimestamp_def Prefix_DefaultParams
        calcTsFormat_DefaultParams Split_TimestampFormatStd TimestampFormatStd_nonempty Let_def)
qed

lemma parseLinePlain_header_26:
  "time_Parse tm TimestampFormatStd ''2014/07/29 18:34:26'' = Some t1 \<Longrightarrow>
   parseLinePlain tm DefaultParams ''2014/07/29 18:34:26 [job_id=123458] Something Happened'' tsf
     = Inr [''timestamp'' \<mapsto> Str (if tsf = [] then ''2014/07/29 18:34:26''
                                        else time_Format tm t1 tsf),
            ''msg'' \<mapsto> Str ''Something Happened'',
            ''job_id'' \<mapsto> Str ''123458'']"
  by (simp add: parseLinePlain_def stripPrefix_def stripTimestamp_def Prefix_DefaultParams
      calcTsFormat_DefaultParams Split_TimestampFormatStd TimestampFormatStd_nonempty Let_def
      TrimLeft_def TrimPrefix_def HasPrefix_def addToken_def Add_def Add1_def)

lemma parseLinePlain_header_27:
  "time_Parse tm TimestampFormatStd ''2014/07/29 18:34:27'' = Some t2 \<Longrightarrow>
   parseLinePlain tm DefaultParams ''2014/07/29 18:34:27 [job_id=123459] Something Happened'' tsf
     = Inr [''timestamp'' \<mapsto> Str (if tsf = [] then ''2014/07/29 18:34:27''
                                        else time_Format tm t2 tsf),
            ''msg'' \<mapsto> Str ''Something Happened'',
            ''job_id'' \<mapsto> Str ''123459'']"
  by (simp add: parseLinePlain_def stripPrefix_def stripTimestamp_def Prefix_DefaultParams
      calcTsFormat_DefaultParams Split_TimestampFormatStd TimestampFormatStd_nonempty Let_def
      TrimLeft_def TrimPrefix_def HasPrefix_def addToken_def Add_def Add1_def)

lemma parseLinePlain_a_hello:
  "parseLinePlain tm NoTimestamp ''[a] hello'' tsf
     = Inr [''msg'' \<mapsto> Str ''hello'', ''tags'' \<mapsto> Str ''a'']"
  by (simp add: parseLinePlain_def stripPrefix_def stripTimestamp_def Prefix_NoTimestamp
      calcTsFormat_NoTimestamp Let_def addToken_def Add_def Add1_def)

lemma parseLinePlain_empty:
  "parseLinePlain tm NoTimestamp [] tsf = Inl EmptyLine"
  by (simp add: parseLinePlain_def stripPrefix_def stripTimestamp_def Prefix_NoTimestamp
      calcTsFormat_NoTimestamp Let_def)

lemma PlainToJSON_example:
  assumes "time_Parse tm TimestampFormatStd ''2014/07/29 18:34:26'' = Some t1"
      and "time_Parse tm TimestampFormatStd ''2014/07/29 18:34:27'' = Some t2"
  shows "PlainToJSON tm DefaultParams
          ([''2014/07/29 18:34:26 [job_id=123458] Something Happened'', ''That'', ''Takes'',
            ''2014/07/29 18:34:27 [job_id=123459] Something Happened''], serr) tsf
       = ([JObject [''timestamp'' \<mapsto> Str (if tsf = [] then ''2014/07/29 18:34:26''
                                                  else time_Format tm t1 tsf),
                    ''job_id'' \<mapsto> Str ''123458'',
                    ''msg'' \<mapsto> Str ''Something Happened\<newline>That\<newline>Takes''],
           JObject [''timestamp'' \<mapsto> Str (if tsf = [] then ''2014/07/29 18:34:27''
                                                  else time_Format tm t2 tsf),
                    ''msg'' \<mapsto> Str ''Something Happened'',
                    ''job_id'' \<mapsto> Str ''123459'']],
          Returned None)"
proof -
  have that: "parseLinePlain tm DefaultParams ''That'' tsf = Inl FormatMismatchTimestamp"
    by (rule parseLinePlain_one_word) simp
  have takes: "parseLinePlain tm DefaultParams ''Takes'' tsf = Inl FormatMismatchTimestamp"
    by (rule parseLinePlain_one_word) simp
  show ?thesis
    by (simp add: PlainToJSON_def parseLinePlain_header_26 [OF assms(1)]
        parseLinePlain_header_27 [OF assms(2)] that takes Get_def Set_def Del_def Add_def Add1_def)
qed

text \<open>
  Input in which no line parses: \<^verbatim>\<open>PlainToJSON\<close> writes nothing when the last line
  is empty (or there is no line), and one \<^verbatim>\<open>null\<close> otherwise.
\<close>

lemma findHeader_no_header:
  "\<forall>l\<in>set ls. \<exists>e. parseLinePlain tm p l tsf = Inl e \<Longrightarrow>
   findHeader tm p tsf s ls = (last (s # ls), None, [])"
  by (induction ls arbitrary: s) auto

lemma PlainToJSON_no_header:
  assumes "\<forall>l\<in>set ls. \<exists>e. parseLinePlain tm p l tsf = Inl e"
  shows "PlainToJSON tm p (ls, serr) tsf
           = (if last ([] # ls) = [] then ([], Returned serr) else ([JNull], Returned None))"
  using findHeader_no_header [OF assms, of "[]"] by (simp add: PlainToJSON_def)

text \<open>
  Claim C2, at the input of the single line \<^verbatim>\<open>That\<close> under the default parameters:
  the line is no header, so no line of the input ever parses. \<^verbatim>\<open>PlainToJSON\<close>
  tests \<^verbatim>\<open>s == ""\<close> on the last line read, not whether a header was found; the line
  is not empty, so the final flush runs on the nil map and writes \<^verbatim>\<open>null\<close>.
\<close>

theorem PlainToJSON_no_header_writes_null:
  "parseLinePlain tm DefaultParams ''That'' tsf = Inl FormatMismatchTimestamp
   \<and> PlainToJSON tm DefaultParams ([''That''], None) tsf = ([JNull], Returned None)"
proof -
  have "parseLinePlain tm DefaultParams ''That'' tsf = Inl FormatMismatchTimestamp"
    by (rule parseLinePlain_one_word) simp
  then show ?thesis by (simp add: PlainToJSON_def)
qed

text \<open>
  Claim C3 fails as stated. Without timestamp and prefix, the empty line after the
  header \<^verbatim>\<open>[a] hello\<close> fails with \<^verbatim>\<open>"Empty line"\<close>; the conversion goes on, appends a
  newline and the (empty) line to the message, and returns nil.
\<close>

theorem PlainToJSON_EmptyLine_continues_counterexample:
  "parseLinePlain std_time NoTimestamp [] [] = Inl EmptyLine
   \<and> PlainToJSON std_time NoTimestamp ([''[a] hello'', []], None) []
       = ([JObject [''msg'' \<mapsto> Str ''hello\<newline>'', ''tags'' \<mapsto> Str ''a'']], Returned None)
   \<and> snd (PlainToJSON std_time NoTimestamp ([''[a] hello'', []], None) [])
       \<noteq> Returned (Some EmptyLine)"
proof -
  have "PlainToJSON std_time NoTimestamp ([''[a] hello'', []], None) []
       = ([JObject [''msg'' \<mapsto> Str ''hello\<newline>'', ''tags'' \<mapsto> Str ''a'']], Returned None)"
    by (simp add: PlainToJSON_def parseLinePlain_a_hello parseLinePlain_empty
        Get_def Set_def Del_def Add_def Add1_def fun_upd_twist)
  then show ?thesis by (simp add: parseLinePlain_empty)
qed

text \<open>
  Claim C3, amended. Once a header is pending, a line whose parse fails with any
  error \<open>e\<close>, \<^verbatim>\<open>"Empty line"\<close> as well as a format mismatch, is a continuation: a
  newline and the raw line are appended to the message of the pending record. No
  parse error ends the conversion or reaches the caller: \<^verbatim>\<open>PlainToJSON\<close> returns nil,
  or what \<^verbatim>\<open>scanner.Err()\<close> gives.
\<close>

theorem PlainToJSON_any_failure_continues:
  "(parseLinePlain tm p s tsf = Inl e \<longrightarrow> Get lt ''msg'' = Inr m \<longrightarrow>
      convert tm p tsf (Some lt) acc (s # ss)
        = convert tm p tsf (Some (Set ''msg'' [m @ [CHR 0x0A] @ s] lt)) acc ss)
   \<and> (snd (PlainToJSON tm p (ls, serr) tsf) = Returned None
        \<or> snd (PlainToJSON tm p (ls, serr) tsf) = Returned serr)"
  using PlainToJSON_returns [of tm p ls serr tsf] by simp

theorem PlainToJSON_any_failure_continues_witness:
  "parseLinePlain std_time NoTimestamp [] [] = Inl EmptyLine
   \<and> Get [''msg'' \<mapsto> Str ''hello'', ''tags'' \<mapsto> Str ''a''] ''msg'' = Inr ''hello''
   \<and> convert std_time NoTimestamp [] (Some [''msg'' \<mapsto> Str ''hello'', ''tags'' \<mapsto> Str ''a'']) [] [[]]
       = convert std_time NoTimestamp []
           (Some (Set ''msg'' [''hello'' @ [CHR 0x0A] @ []]
                    [''msg'' \<mapsto> Str ''hello'', ''tags'' \<mapsto> Str ''a''])) [] []
   \<and> snd (PlainToJSON std_time NoTimestamp ([''[a] hello'', []], None) []) = Returned None"
  using PlainToJSON_any_failure_continues
    [of std_time NoTimestamp "[]" "[]" EmptyLine
        "[''msg'' \<mapsto> Str ''hello'', ''tags'' \<mapsto> Str ''a'']" "''hello''" "[]" "[]"
        "[''[a] hello'', []]" None]
  by (simp add: parseLinePlain_empty Get_def)

text \<open>
  Claim C5. Under the default parameters (the standard layout), for every time
  package that accepts the two timestamps, the four lines give exactly two JSON
  objects, and \<^verbatim>\<open>msg\<close> of the first is \<^verbatim>\<open>Something Happened\nThat\nTakes\<close>. In general
  every line of a run \<open>cs\<close> of lines that fail the header parse adds a newline and
  its raw text to the one message of the pending record.
\<close>

theorem PlainToJSON_multi_line:
  "(time_Parse tm TimestampFormatStd ''2014/07/29 18:34:26'' = Some t1
    \<and> time_Parse tm TimestampFormatStd ''2014/07/29 18:34:27'' = Some t2 \<longrightarrow>
      PlainToJSON tm DefaultParams
          ([''2014/07/29 18:34:26 [job_id=123458] Something Happened'', ''That'', ''Takes'',
            ''2014/07/29 18:34:27 [job_id=123459] Something Happened''], serr) tsf
       = ([JObject [''timestamp'' \<mapsto> Str (if tsf = [] then ''2014/07/29 18:34:26''
                                                  else time_Format tm t1 tsf),
                    ''job_id'' \<mapsto> Str ''123458'',
                    ''msg'' \<mapsto> Str ''Something Happened\<newline>That\<newline>Takes''],
           JObject [''timestamp'' \<mapsto> Str (if tsf = [] then ''2014/07/29 18:34:27''
                                                  else time_Format tm t2 tsf),
                    ''msg'' \<mapsto> Str ''Something Happened'',
                    ''job_id'' \<mapsto> Str ''123459'']],
          Returned None))
   \<and> (cs \<noteq> [] \<and> (\<forall>c\<in>set cs. \<exists>e. parseLinePlain tm p c tsf = Inl e)
        \<and> Get lt ''msg'' = Inr m \<longrightarrow>
      convert tm p tsf (Some lt) acc (cs @ rest)
        = convert tm p tsf
            (Some (Set ''msg'' [m @ concat (map (\<lambda>c. CHR 0x0A # c) cs)] lt)) acc rest)"
  using PlainToJSON_example [of tm t1 t2 serr tsf] convert_run [of cs tm p tsf lt m acc rest]
  by blast

theorem PlainToJSON_multi_line_witness:
  "time_Parse std_time TimestampFormatStd ''2014/07/29 18:34:26'' = Some [2014, 7, 29, 18, 34, 26]
   \<and> time_Parse std_time TimestampFormatStd ''2014/07/29 18:34:27'' = Some [2014, 7, 29, 18, 34, 27]
   \<and> PlainToJSON std_time DefaultParams
          ([''2014/07/29 18:34:26 [job_id=123458] Something Happened'', ''That'', ''Takes'',
            ''2014/07/29 18:34:27 [job_id=123459] Something Happened''], None) []
       = ([JObject [''timestamp'' \<mapsto> Str ''2014/07/29 18:34:26'',
                    ''job_id'' \<mapsto> Str ''123458'',
                    ''msg'' \<mapsto> Str ''Something Happened\<newline>That\<newline>Takes''],
           JObject [''timestamp'' \<mapsto> Str ''2014/07/29 18:34:27'',
                    ''msg'' \<mapsto> Str ''Something Happened'',
                    ''job_id'' \<mapsto> Str ''123459'']],
          Returned None)
   \<and> [''That'', ''Takes''] \<noteq> []
   \<and> parseLinePlain std_time DefaultParams ''That'' [] = Inl FormatMismatchTimestamp
   \<and> parseLinePlain std_time DefaultParams ''Takes'' [] = Inl FormatMismatchTimestamp
   \<and> Get [''msg'' \<mapsto> Str ''Something Happened''] ''msg'' = Inr ''Something Happened''
   \<and> convert std_time DefaultParams [] (Some [''msg'' \<mapsto> Str ''Something Happened'']) []
         ([''That'', ''Takes''] @ [])
       = convert std_time DefaultParams []
           (Some (Set ''msg''
                    [''Something Happened'' @ concat (map (\<lambda>c. CHR 0x0A # c) [''That'', ''Takes''])]
                    [''msg'' \<mapsto> Str ''Something Happened''])) [] []"
proof -
  have p: "time_Parse std_time TimestampFormatStd ''2014/07/29 18:34:26'' = Some [2014, 7, 29, 18, 34, 26]"
    "time_Parse std_time TimestampFormatStd ''2014/07/29 18:34:27'' = Some [2014, 7, 29, 18, 34, 27]"
    by (simp_all add: std_time_def std_Parse_26 std_Parse_27)
  have f: "parseLinePlain std_time DefaultParams ''That'' [] = Inl FormatMismatchTimestamp"
    "parseLinePlain std_time DefaultParams ''Takes'' [] = Inl FormatMismatchTimestamp"
    by (simp_all add: parseLinePlain_one_word)
  have g: "Get [''msg'' \<mapsto> Str ''Something Happened''] ''msg'' = Inr ''Something Happened''"
    by (simp add: Get_def)
  show ?thesis
    using PlainToJSON_multi_line
      [of std_time "[2014, 7, 29, 18, 34, 26]" "[2014, 7, 29, 18, 34, 27]" None "[]"
          "[''That'', ''Takes'']" DefaultParams "[''msg'' \<mapsto> Str ''Something Happened'']"
          "''Something Happened''" "[]" "[]"]
      p f g
    by simp
qed

section \<open>Properties of the token rule\<close>

lemma Split_nonempty: "Split s c \<noteq> []"
  by (induction s) (auto split: list.splits)

lemma Split_no_sep: "c \<notin> set s \<Longrightarrow> Split s c = [s]"
  by (induction s) auto

lemma Split_at_sep:
  "c \<in> set s \<Longrightarrow>
   Split s c = takeWhile (\<lambda>x. x \<noteq> c) s # Split (tl (dropWhile (\<lambda>x. x \<noteq> c) s)) c"
proof (induction s)
  case Nil
  then show ?case by simp
next
  case (Cons x xs)
  show ?case
  proof (cases "x = c")
    case True
    then show ?thesis by simp
  next
    case False
    with Cons have "Split xs c
        = takeWhile (\<lambda>x. x \<noteq> c) xs # Split (tl (dropWhile (\<lambda>x. x \<noteq> c) xs)) c"
      by simp
    with False show ?thesis by simp
  qed
qed

lemma takeWhile_no_sep: "c \<notin> set s \<Longrightarrow> takeWhile (\<lambda>x. x \<noteq> c) s = s"
  by (induction s) auto

lemma hd_Split: "hd (Split s c) = takeWhile (\<lambda>x. x \<noteq> c) s"
  by (cases "c \<in> set s") (simp_all add: Split_at_sep Split_no_sep takeWhile_no_sep)

lemma length_Split_1: "(length (Split s c) = 1) = (c \<notin> set s)"
  using Split_nonempty [of "tl (dropWhile (\<lambda>x. x \<noteq> c) s)" c]
  by (cases "c \<in> set s") (simp_all add: Split_at_sep Split_no_sep)

lemma Split_second:
  "c \<in> set s \<Longrightarrow>
   Split s c ! 1 = takeWhile (\<lambda>x. x \<noteq> c) (tl (dropWhile (\<lambda>x. x \<noteq> c) s))"
  using Split_nonempty [of "tl (dropWhile (\<lambda>x. x \<noteq> c) s)" c]
    hd_Split [of "tl (dropWhile (\<lambda>x. x \<noteq> c) s)" c]
  by (simp add: Split_at_sep hd_conv_nth)

lemma addToken_eq:
  "addToken t tgs =
     (if CHR ''='' \<notin> set t then Add ''tags'' [t] tgs
      else Add (takeWhile (\<lambda>c. c \<noteq> CHR ''='') t)
               (Split (takeWhile (\<lambda>c. c \<noteq> CHR ''='')
                         (tl (dropWhile (\<lambda>c. c \<noteq> CHR ''='') t))) CHR '','')
               tgs)"
proof (cases "CHR ''='' \<in> set t")
  case True
  then show ?thesis
    using hd_Split [of t "CHR ''=''"] Split_nonempty [of t "CHR ''=''"]
      length_Split_1 [of t "CHR ''=''"] Split_second [of "CHR ''=''" t]
    by (simp add: addToken_def Let_def hd_conv_nth)
next
  case False
  then show ?thesis
    by (simp add: addToken_def Let_def Split_no_sep)
qed

text \<open>
  Claim C6 fails as stated. The token \<^verbatim>\<open>a=b=c\<close> is cut at both \<^verbatim>\<open>=\<close>; only the piece
  between them becomes a value, and \<^verbatim>\<open>=c\<close> is lost. The claim keeps \<^verbatim>\<open>b=c\<close>.
\<close>

theorem addToken_second_equals_counterexample:
  "addToken ''a=b=c'' Map.empty ''a'' = Some (Str ''b'')
   \<and> addToken_claimed ''a=b=c'' Map.empty ''a'' = Some (Str ''b=c'')
   \<and> parseLinePlain std_time NoTimestamp ''[a=b=c] m'' []
       = Inr [''msg'' \<mapsto> Str ''m'', ''a'' \<mapsto> Str ''b'']"
  by (simp add: addToken_def addToken_claimed_def Add_def Add1_def parseLinePlain_def
      stripPrefix_def stripTimestamp_def Prefix_NoTimestamp calcTsFormat_NoTimestamp)

text \<open>
  Claim C6, amended. A token without \<^verbatim>\<open>=\<close> is added whole under \<^verbatim>\<open>tags\<close>. Otherwise
  the text left of the first \<^verbatim>\<open>=\<close> is the key, and the text between the first \<^verbatim>\<open>=\<close>
  and the second (to the end when there is no second) is split on \<^verbatim>\<open>,\<close> into the
  values added under the key; what follows a second \<^verbatim>\<open>=\<close> is dropped. For a token
  with at most one \<^verbatim>\<open>=\<close> this is the rule as the specification words it.
\<close>

theorem addToken_splits_on_every_equals:
  "addToken t tgs =
     (if CHR ''='' \<notin> set t then Add ''tags'' [t] tgs
      else Add (takeWhile (\<lambda>c. c \<noteq> CHR ''='') t)
               (Split (takeWhile (\<lambda>c. c \<noteq> CHR ''='')
                         (tl (dropWhile (\<lambda>c. c \<noteq> CHR ''='') t))) CHR '','')
               tgs)
   \<and> (CHR ''='' \<notin> set (tl (dropWhile (\<lambda>c. c \<noteq> CHR ''='') t))
        \<longrightarrow> addToken t tgs = addToken_claimed t tgs)"
  by (simp add: addToken_eq addToken_claimed_def takeWhile_no_sep)

theorem addToken_splits_on_every_equals_witness:
  "addToken ''a=b=c'' Map.empty = [''a'' \<mapsto> Str ''b'']
   \<and> addToken ''x'' Map.empty = [''tags'' \<mapsto> Str ''x'']
   \<and> CHR ''='' \<notin> set (tl (dropWhile (\<lambda>c. c \<noteq> CHR ''='') ''k=1,2''))
   \<and> addToken ''k=1,2'' Map.empty = addToken_claimed ''k=1,2'' Map.empty
   \<and> addToken ''k=1,2'' Map.empty = [''k'' \<mapsto> Strs [''1'', ''2'']]"
  using addToken_splits_on_every_equals [of "''a=b=c''" Map.empty]
    addToken_splits_on_every_equals [of "''k=1,2''" Map.empty]
    addToken_splits_on_every_equals [of "''x''" Map.empty]
  by (simp add: Add_def Add1_def addToken_claimed_def)

section \<open>Export and Import\<close>

lemma Add1_other: "k' \<noteq> k \<Longrightarrow> Add1 k v t k' = t k'"
  by (auto simp: Add1_def split: option.splits tag_value.splits)

lemma Add_other: "k' \<noteq> k \<Longrightarrow> Add k vs t k' = t k'"
  unfolding Add_def by (induction vs arbitrary: t) (simp_all add: Add1_other)

lemma GetAll_Add1: "GetAll (Add1 k v t) k = GetAll t k @ [v]"
  by (auto simp: Add1_def GetAll_def split: option.splits tag_value.splits)

lemma GetAll_Add: "GetAll (Add k vs t) k = GetAll t k @ vs"
  unfolding Add_def by (induction vs arbitrary: t) (simp_all add: GetAll_Add1)

lemma pack_multi: "2 \<le> length vs \<Longrightarrow> pack vs = Some (Strs vs)"
  by (cases vs rule: pack.cases) auto

lemma multi_pack_GetAll: "multi (t k) \<Longrightarrow> pack (GetAll t k) = t k"
  by (cases "t k" rule: multi.cases) (auto simp: GetAll_def pack_multi)

text \<open>\<^verbatim>\<open>Merge\<close> of values that are new to the key and differ from each other is \<^verbatim>\<open>Add\<close>.\<close>

lemma Merge_distinct:
  "distinct vs \<Longrightarrow> set vs \<inter> set (GetAll t k) = {} \<Longrightarrow> Merge k vs t = Add k vs t"
proof (induction vs arbitrary: t)
  case Nil
  then show ?case by (simp add: Merge_def Add_def)
next
  case (Cons v vs)
  have step: "Merge1 k v t = Add1 k v t"
    using Cons.prems by (auto simp: Merge1_def Add_def list_ex_iff)
  have "set vs \<inter> set (GetAll (Add1 k v t) k) = {}"
    using Cons.prems by (auto simp: GetAll_Add1)
  with Cons have "Merge k vs (Add1 k v t) = Add k vs (Add1 k v t)"
    by simp
  with step show ?case by (simp add: Merge_def Add_def)
qed

lemma Add_to_absent: "t k = None \<Longrightarrow> Add k vs t = t(k := pack vs)"
proof (rule ext)
  fix k'
  assume a: "t k = None"
  show "Add k vs t k' = (t(k := pack vs)) k'"
  proof (cases "k' = k")
    case False
    then show ?thesis by (simp add: Add_other)
  next
    case True
    have "multi (Add k vs t k)" using a by (simp add: multi_Add)
    then have "pack (GetAll (Add k vs t) k) = Add k vs t k" by (rule multi_pack_GetAll)
    moreover have "GetAll t k = []" using a by (simp add: GetAll_def)
    then have "GetAll (Add k vs t) k = vs" by (simp add: GetAll_Add)
    ultimately show ?thesis using True by simp
  qed
qed

text \<open>\<^verbatim>\<open>Import\<close> into a store that has none of the keys, whatever the order of the visit.\<close>

lemma Import_fresh:
  "distinct ks \<Longrightarrow> \<forall>k\<in>set ks. t0 k = None \<Longrightarrow>
   \<forall>k\<in>set ks. \<forall>vs. m k = Some vs \<longrightarrow> distinct vs \<Longrightarrow>
   Import ks m t0
     = (\<lambda>k. if k \<in> set ks then (case m k of None \<Rightarrow> None | Some vs \<Rightarrow> pack vs) else t0 k)"
proof (induction ks arbitrary: t0)
  case Nil
  then show ?case by (simp add: Import_def)
next
  case (Cons k ks)
  let ?t1 = "case m k of Some v \<Rightarrow> Merge k v t0 | None \<Rightarrow> t0"
  have t1: "?t1 = t0(k := (case m k of None \<Rightarrow> None | Some vs \<Rightarrow> pack vs))"
  proof (cases "m k")
    case None
    then show ?thesis using Cons.prems(2) by auto
  next
    case (Some vs)
    with Cons.prems have "distinct vs" and "t0 k = None" by auto
    then have "Merge k vs t0 = t0(k := pack vs)"
      by (simp add: Merge_distinct GetAll_def Add_to_absent)
    with Some show ?thesis by simp
  qed
  have "Import (k # ks) m t0 = Import ks m ?t1"
    by (simp add: Import_def)
  also have "\<dots> = (\<lambda>k'. if k' \<in> set ks
                            then (case m k' of None \<Rightarrow> None | Some vs \<Rightarrow> pack vs) else ?t1 k')"
    using Cons.prems by (intro Cons.IH) (auto simp: t1)
  finally show ?case using Cons.prems(1) by (auto simp: t1 fun_eq_iff)
qed

lemma built_multi: "built t \<Longrightarrow> multi (t k)"
  by (induction rule: built.induct) (simp_all add: multi_Add multi_Set)

lemma dom_Export: "dom (Export t) = dom t"
  by (auto simp: Export_def split: option.splits tag_value.splits)

lemma Export_GetAll: "Export t k = Some vs \<Longrightarrow> GetAll t k = vs"
  by (auto simp: Export_def GetAll_def split: option.splits tag_value.splits)

lemma Import_Export:
  assumes "\<And>k. multi (t k)" and "\<And>k. distinct (GetAll t k)"
      and "distinct ks" and "set ks = dom t"
  shows "Import ks (Export t) Map.empty = t"
proof -
  have d: "\<forall>k\<in>set ks. \<forall>vs. Export t k = Some vs \<longrightarrow> distinct vs"
    using assms(2) Export_GetAll by metis
  have "Import ks (Export t) Map.empty
      = (\<lambda>k. if k \<in> set ks then (case Export t k of None \<Rightarrow> None | Some vs \<Rightarrow> pack vs)
              else None)"
    using assms(3) d by (subst Import_fresh) auto
  also have "\<dots> = t"
  proof (rule ext)
    fix k
    show "(if k \<in> set ks then (case Export t k of None \<Rightarrow> None | Some vs \<Rightarrow> pack vs)
           else None) = t k"
    proof (cases "t k")
      case None
      then show ?thesis by (simp add: Export_def)
    next
      case (Some tv)
      then have "k \<in> set ks" using assms(4) by auto
      moreover have "Export t k = Some (GetAll t k)"
        using Some by (auto simp: Export_def GetAll_def split: tag_value.splits)
      ultimately show ?thesis using multi_pack_GetAll [of t k] assms(1) by simp
    qed
  qed
  finally show ?thesis .
qed

text \<open>
  Claim C4 fails as stated. \<^verbatim>\<open>Add("k", "a", "a")\<close> on the empty store gives the
  sequence \<^verbatim>\<open>a, a\<close>; \<^verbatim>\<open>Import\<close> goes through \<^verbatim>\<open>Merge\<close>, which skips the second \<^verbatim>\<open>a\<close>,
  so the store that comes back exports the one value \<^verbatim>\<open>a\<close>.
\<close>

theorem Export_Import_duplicate_counterexample:
  "built (Add ''k'' [''a'', ''a''] Map.empty)
   \<and> Export (Add ''k'' [''a'', ''a''] Map.empty) ''k'' = Some [''a'', ''a'']
   \<and> Export (Import [''k''] (Export (Add ''k'' [''a'', ''a''] Map.empty)) Map.empty) ''k''
       = Some [''a'']"
proof -
  have "built (Add ''k'' [''a'', ''a''] Map.empty)"
    by (intro built.intros)
  then show ?thesis
    by (simp add: Export_def Import_def Add_def Add1_def Merge_def Merge1_def GetAll_def)
qed

text \<open>
  Claim C4, amended. For every store built from \<^verbatim>\<open>Add\<close> and \<^verbatim>\<open>Set\<close> calls in which
  no key holds the same value twice, \<^verbatim>\<open>Export\<close> followed by \<^verbatim>\<open>Import\<close> into an
  empty store gives a store with the same export: the same keys, each with the
  same values in the same order. \<open>ks\<close> is any order of visiting the exported keys.
\<close>

theorem Export_Import_roundtrip:
  assumes "built t"
      and "\<forall>k. distinct (GetAll t k)"
      and "distinct ks"
      and "set ks = dom (Export t)"
  shows "Export (Import ks (Export t) Map.empty) = Export t"
  using Import_Export [of t ks] assms built_multi [OF assms(1)] by (simp add: dom_Export)

theorem Export_Import_roundtrip_witness:
  "built (Add ''filters'' [''vol'', ''delay''] (Add ''job_id'' [''123456''] Map.empty))
   \<and> (\<forall>k. distinct (GetAll (Add ''filters'' [''vol'', ''delay'']
                              (Add ''job_id'' [''123456''] Map.empty)) k))
   \<and> distinct [''job_id'', ''filters'']
   \<and> set [''job_id'', ''filters'']
       = dom (Export (Add ''filters'' [''vol'', ''delay''] (Add ''job_id'' [''123456''] Map.empty)))
   \<and> Export (Import [''job_id'', ''filters'']
               (Export (Add ''filters'' [''vol'', ''delay''] (Add ''job_id'' [''123456''] Map.empty)))
               Map.empty)
       = Export (Add ''filters'' [''vol'', ''delay''] (Add ''job_id'' [''123456''] Map.empty))"
proof -
  let ?t = "Add ''filters'' [''vol'', ''delay''] (Add ''job_id'' [''123456''] Map.empty)"
  have b: "built ?t"
    by (intro built.intros)
  have d: "\<forall>k. distinct (GetAll ?t k)"
    by (simp add: GetAll_def Add_def Add1_def)
  have k: "distinct [''job_id'', ''filters'']"
    by simp
  have s: "set [''job_id'', ''filters''] = dom (Export ?t)"
    by (auto simp: dom_Export Add_def Add1_def)
  from Export_Import_roundtrip [OF b d k s] b d k s show ?thesis
    by blast
qed

section \<open>Properties of the logger\<close>

lemma two_keys:
  assumes "distinct ks" and "set ks = {a, b}" and "a \<noteq> b"
  shows "ks = [a, b] \<or> ks = [b, a]"
proof -
  have "length ks = 2"
    using distinct_card [OF assms(1)] assms(2,3) by simp
  then obtain x y where "ks = [x, y]"
    by (auto simp: length_Suc_conv numeral_2_eq_2)
  with assms show ?thesis
    by (auto simp: doubleton_eq_iff)
qed

lemma lineTags_job_id_filters:
  "lineTags [''job_id'', ''filters'']
       [''job_id'' \<mapsto> Str ''123456'', ''filters'' \<mapsto> Strs [''vol'', ''delay'']]
     = [''[filters=vol,delay]'', ''[job_id=123456]'']"
  "lineTags [''filters'', ''job_id'']
       [''job_id'' \<mapsto> Str ''123456'', ''filters'' \<mapsto> Strs [''vol'', ''delay'']]
     = [''[filters=vol,delay]'', ''[job_id=123456]'']"
  by (simp_all add: lineTags_def bracketTokens_def less_eq_char_def less_char_def)

lemma token_in_lineTags:
  "k \<in> set ks \<Longrightarrow> t k = Some v \<Longrightarrow> tok \<in> set (bracketTokens k v)
   \<Longrightarrow> tok \<in> set (lineTags ks t)"
  by (auto simp: lineTags_def intro!: bexI [of _ k])

text \<open>The order in which the loop visits the keys does not show in the line.\<close>

lemma mset_concat_map:
  assumes "mset ks = mset ks'"
  shows "mset (concat (map f ks)) = mset (concat (map f ks'))"
proof -
  have "mset (concat (map f xs)) = (\<Sum>k\<in>#mset xs. mset (f k))" for xs :: "'a list"
    by (induction xs) simp_all
  with assms show ?thesis by simp
qed

lemma lineTags_order:
  assumes "distinct ks" and "distinct ks'" and "set ks = set ks'"
  shows "lineTags ks t = lineTags ks' t"
proof -
  have "mset ks = mset ks'"
    using assms by (simp add: set_eq_iff_mset_eq_distinct)
  then have "mset (concat (map (\<lambda>k. case t k of None \<Rightarrow> [] | Some v \<Rightarrow> bracketTokens k v) ks))
           = mset (concat (map (\<lambda>k. case t k of None \<Rightarrow> [] | Some v \<Rightarrow> bracketTokens k v) ks'))"
    by (rule mset_concat_map)
  then show ?thesis
    unfolding lineTags_def by (intro properties_for_sort) simp_all
qed

lemma Loutput_order:
  assumes "distinct ks" and "distinct ks'" and "set ks = set ks'"
  shows "Loutput tm now0 ks lg lvl s = Loutput tm now0 ks' lg lvl s"
proof -
  have "plainLine p n ks t x = plainLine p n ks' t x" for p n t x
    by (simp add: plainLine_def lineTags_order [OF assms])
  then show ?thesis
    by (simp add: Loutput_def Let_def)
qed

lemma PlainLogger_simps:
  "Format (params PlainLogger) = FormatPlain"
  "Prefix (params PlainLogger) = []"
  "calcTsFormat (params PlainLogger) = []"
  "levelTag PlainLogger = ''level''"
  "tags PlainLogger = Map.empty"
  "out PlainLogger = []"
  by (simp_all add: PlainLogger_def SetTimestampFormatType_def New_def DefineLevels_def
      DefaultParams_def calcTsFormat_def GenTimestampFormat_def TimestampFormatTypeStd_def
      TimestampFormatTypeISO_def Ldate_def Ltime_def)

lemma renderNow_std_time_PlainLogger: "renderNow std_time now0 (params PlainLogger) = []"
  by (simp add: renderNow_def PlainLogger_simps std_time_def std_Format_def
      TimestampFormatStd_def)

text \<open>
  Claim C7. In plain format, with an empty prefix, no timestamp and no level, the
  store \<^verbatim>\<open>{"job_id": "123456", "filters": ["vol", "delay"]}\<close> and the message
  \<^verbatim>\<open>Message String\<close> give exactly the line
  \<^verbatim>\<open>[filters=vol,delay] [job_id=123456] Message String\<close>, in whatever order the loop
  visits the two keys. In general the bracket tokens are in the order of their
  rendered text, and the values under \<^verbatim>\<open>tags\<close> each get a bracket pair of their own.
\<close>

theorem Loutput_plain_line:
  "(Format (params lg) = FormatPlain \<and> Prefix (params lg) = []
    \<and> renderNow tm now0 (params lg) = []
    \<and> tags lg = [''job_id'' \<mapsto> Str ''123456'', ''filters'' \<mapsto> Strs [''vol'', ''delay'']]
    \<and> distinct ks \<and> set ks = dom (tags lg) \<longrightarrow>
      Loutput tm now0 ks lg [] ''Message String''
        = (lg\<lparr> out := out lg
                   @ [Bytes ''[filters=vol,delay] [job_id=123456] Message String''] \<rparr>, None))
   \<and> sorted (lineTags ks' t)
   \<and> bracketTokens ''tags'' (Strs vs) = map (\<lambda>v. ''['' @ v @ '']'') vs"
proof -
  have "Loutput tm now0 ks lg [] ''Message String''
        = (lg\<lparr> out := out lg
                   @ [Bytes ''[filters=vol,delay] [job_id=123456] Message String''] \<rparr>, None)"
    if a: "Format (params lg) = FormatPlain" "Prefix (params lg) = []"
      "renderNow tm now0 (params lg) = []"
      "tags lg = [''job_id'' \<mapsto> Str ''123456'', ''filters'' \<mapsto> Strs [''vol'', ''delay'']]"
      "distinct ks" "set ks = dom (tags lg)"
  proof -
    have "ks = [''job_id'', ''filters''] \<or> ks = [''filters'', ''job_id'']"
      using a(4,5,6) by (intro two_keys) auto
    then have "lineTags ks (tags lg) = [''[filters=vol,delay]'', ''[job_id=123456]'']"
      using lineTags_job_id_filters a(4) by auto
    then show ?thesis
      using a(1,2,3)
      by (simp add: Loutput_def discarded_def setsLevelTag_def plainLine_def FormatPlain_def
          FormatJSON_def)
  qed
  moreover have "sorted (lineTags ks' t)"
    by (simp add: lineTags_def)
  moreover have "bracketTokens ''tags'' (Strs vs) = map (\<lambda>v. ''['' @ v @ '']'') vs"
    by (simp add: bracketTokens_def)
  ultimately show ?thesis by blast
qed

theorem Loutput_plain_line_witness:
  "Format (params (AddTag ''filters'' [''vol'', ''delay''] (AddTag ''job_id'' [''123456''] PlainLogger)))
     = FormatPlain
   \<and> Prefix (params (AddTag ''filters'' [''vol'', ''delay''] (AddTag ''job_id'' [''123456''] PlainLogger)))
       = []
   \<and> renderNow std_time [2014, 7, 24, 22, 8, 56]
        (params (AddTag ''filters'' [''vol'', ''delay''] (AddTag ''job_id'' [''123456''] PlainLogger)))
       = []
   \<and> tags (AddTag ''filters'' [''vol'', ''delay''] (AddTag ''job_id'' [''123456''] PlainLogger))
       = [''job_id'' \<mapsto> Str ''123456'', ''filters'' \<mapsto> Strs [''vol'', ''delay'']]
   \<and> distinct [''job_id'', ''filters'']
   \<and> set [''job_id'', ''filters'']
       = dom (tags (AddTag ''filters'' [''vol'', ''delay''] (AddTag ''job_id'' [''123456''] PlainLogger)))
   \<and> out (fst (Loutput std_time [2014, 7, 24, 22, 8, 56] [''job_id'', ''filters'']
                  (AddTag ''filters'' [''vol'', ''delay''] (AddTag ''job_id'' [''123456''] PlainLogger))
                  [] ''Message String''))
       = [Bytes ''[filters=vol,delay] [job_id=123456] Message String'']"
proof -
  let ?lg = "AddTag ''filters'' [''vol'', ''delay''] (AddTag ''job_id'' [''123456''] PlainLogger)"
  have p: "params ?lg = params PlainLogger" "out ?lg = []"
    by (simp_all add: AddTag_def PlainLogger_simps)
  have t: "tags ?lg = [''job_id'' \<mapsto> Str ''123456'', ''filters'' \<mapsto> Strs [''vol'', ''delay'']]"
    by (simp add: AddTag_def PlainLogger_simps Add_def Add1_def)
  have d: "set [''job_id'', ''filters''] = dom (tags ?lg)"
    unfolding t by auto
  show ?thesis
    using Loutput_plain_line [of ?lg std_time "[2014, 7, 24, 22, 8, 56]" "[''job_id'', ''filters'']"]
      p t d
    by (simp add: PlainLogger_simps renderNow_std_time_PlainLogger)
qed

subsection \<open>Level gating\<close>

lemma levels_NewLevelSet:
  "levels (NewLevelSet lvls d)
     = fold (\<lambda>(i, lvl) m. m(ToUpper lvl \<mapsto> int i)) (enumerate 0 lvls) Map.empty"
  by (simp add: NewLevelSet_def Let_def split: option.splits)

lemma ToUpper_level_names:
  "ToUpper ''DEBUG'' = ''DEBUG''" "ToUpper ''INFO'' = ''INFO''"
  "ToUpper ''WARNING'' = ''WARNING''" "ToUpper ''ERROR'' = ''ERROR''"
  by (simp_all add: ToUpper_def upper_char_def less_eq_char_def)

lemma levels_Levels4:
  "levels (Levels4 d) = [''DEBUG'' \<mapsto> 0, ''INFO'' \<mapsto> 1, ''WARNING'' \<mapsto> 2, ''ERROR'' \<mapsto> 3]"
  by (simp add: Levels4_def levels_NewLevelSet ToUpper_level_names)

lemma Levels4_order:
  "Less (Levels4 d) ''INFO'' ''WARNING''"
  "\<not> Less (Levels4 d) ''ERROR'' ''WARNING''"
  "Contains (Levels4 d) ''ERROR''"
  "Contains (Levels4 d) ''WARNING''"
  by (simp_all add: Less_def Contains_def level_index_def levels_Levels4 ToUpper_level_names)

lemma Loutput_gate:
  assumes "lvl \<noteq> []" and "levelset lg = Some ls" and "level lg \<noteq> []"
  shows "(Less ls lvl (level lg) \<longrightarrow> Loutput tm now0 ks lg lvl s = (lg, None))
       \<and> (\<not> Less ls lvl (level lg) \<longrightarrow>
            length (out (fst (Loutput tm now0 ks lg lvl s))) = length (out lg) + 1)"
  using assms by (simp add: Loutput_def discarded_def Let_def)

lemma Loutput_INFO_below_WARNING:
  assumes "levelset lg = Some (Levels4 d)" and "level lg = ''WARNING''"
  shows "Loutput tm now0 ks lg ''INFO'' s = (lg, None)"
  using assms by (simp add: Loutput_def discarded_def Levels4_order)

lemma Loutput_ERROR_JSON:
  assumes "levelset lg = Some (Levels4 d)" and "level lg = ''WARNING''"
      and "levelTag lg = ''level''" and "Format (params lg) = FormatJSON"
  shows "\<exists>t. out (fst (Loutput tm now0 ks lg ''ERROR'' s)) = out lg @ [Encoded (JObject t)]
            \<and> t ''level'' = Some (Str ''ERROR'')"
  using assms
  by (simp add: Loutput_def discarded_def setsLevelTag_def Let_def Levels4_order
      ToUpper_level_names Set_def Del_def Add_def Add1_def)

lemma Loutput_ERROR_plain:
  assumes "levelset lg = Some (Levels4 d)" and "level lg = ''WARNING''"
      and "levelTag lg = ''level''" and "Format (params lg) = FormatPlain"
      and "''level'' \<in> set ks"
  shows "out (fst (Loutput tm now0 ks lg ''ERROR'' s))
           = out lg @ [Bytes (plainLine (params lg) (renderNow tm now0 (params lg)) ks
                               (Set ''level'' [''ERROR''] (tags lg)) s)]
         \<and> ''[level=ERROR]'' \<in> set (lineTags ks (Set ''level'' [''ERROR''] (tags lg)))"
proof -
  have "''[level=ERROR]'' \<in> set (lineTags ks (Set ''level'' [''ERROR''] (tags lg)))"
    using assms(5)
    by (rule token_in_lineTags [where v = "Str ''ERROR''"])
       (simp_all add: Set_def Del_def Add_def Add1_def bracketTokens_def)
  then show ?thesis
    using assms
    by (simp add: Loutput_def discarded_def setsLevelTag_def Let_def Levels4_order
        ToUpper_level_names FormatPlain_def FormatJSON_def)
qed

lemma Loutput_unchanged_iff:
  "(Loutput tm now0 ks lg lvl s = (lg, None))
     = (lvl \<noteq> [] \<and> level lg \<noteq> []
        \<and> (\<exists>ls. levelset lg = Some ls \<and> Less ls lvl (level lg)))"
proof (cases "discarded lg lvl")
  case True
  then show ?thesis
    by (auto simp: Loutput_def discarded_def split: option.splits)
next
  case False
  then have "length (out (fst (Loutput tm now0 ks lg lvl s))) = length (out lg) + 1"
    by (simp add: Loutput_def Let_def)
  then have "Loutput tm now0 ks lg lvl s \<noteq> (lg, None)"
    by auto
  with False show ?thesis
    by (auto simp: discarded_def split: option.splits)
qed

text \<open>
  Claim C8. With the ordering context \<^verbatim>\<open>[DEBUG, INFO, WARNING, ERROR]\<close> and the
  current level \<^verbatim>\<open>WARNING\<close>, \<^verbatim>\<open>Loutput\<close> at \<^verbatim>\<open>INFO\<close> returns the logger as it was,
  sink and store untouched; at \<^verbatim>\<open>ERROR\<close> it writes one record, which carries the
  tag \<^verbatim>\<open>level=ERROR\<close> when the level tag key is \<^verbatim>\<open>level\<close>: as a member of the JSON
  object, or as the bracket token \<^verbatim>\<open>[level=ERROR]\<close> of the plain line. In general,
  for a level that is given, with an ordering context and a current level, the
  call leaves the logger as it was when \<^verbatim>\<open>Less\<close> puts the level below the current
  one, and writes one record when it does not; a call returns the logger as it
  was in that case only.
\<close>

theorem Loutput_level_gating:
  "(lvl \<noteq> [] \<and> levelset lg = Some ls \<and> level lg \<noteq> [] \<longrightarrow>
      (Less ls lvl (level lg) \<longrightarrow> Loutput tm now0 ks lg lvl s = (lg, None))
      \<and> (\<not> Less ls lvl (level lg) \<longrightarrow>
           length (out (fst (Loutput tm now0 ks lg lvl s))) = length (out lg) + 1))
   \<and> (levelset lg = Some (Levels4 d) \<and> level lg = ''WARNING'' \<longrightarrow>
        Loutput tm now0 ks lg ''INFO'' s = (lg, None)
        \<and> (levelTag lg = ''level'' \<and> Format (params lg) = FormatJSON \<longrightarrow>
             (\<exists>t. out (fst (Loutput tm now0 ks lg ''ERROR'' s)) = out lg @ [Encoded (JObject t)]
                  \<and> t ''level'' = Some (Str ''ERROR'')))
        \<and> (levelTag lg = ''level'' \<and> Format (params lg) = FormatPlain \<and> ''level'' \<in> set ks \<longrightarrow>
             out (fst (Loutput tm now0 ks lg ''ERROR'' s))
               = out lg @ [Bytes (plainLine (params lg) (renderNow tm now0 (params lg)) ks
                                   (Set ''level'' [''ERROR''] (tags lg)) s)]
             \<and> ''[level=ERROR]'' \<in> set (lineTags ks (Set ''level'' [''ERROR''] (tags lg)))))
   \<and> (Loutput tm now0 ks lg lvl s = (lg, None))
       = (lvl \<noteq> [] \<and> level lg \<noteq> []
          \<and> (\<exists>ls'. levelset lg = Some ls' \<and> Less ls' lvl (level lg)))"
  using Loutput_gate [of lvl lg ls tm now0 ks s]
    Loutput_INFO_below_WARNING [of lg d tm now0 ks s]
    Loutput_ERROR_JSON [of lg d tm now0 ks s]
    Loutput_ERROR_plain [of lg d ks tm now0 s]
    Loutput_unchanged_iff [of tm now0 ks lg lvl s]
  by blast

lemma SetLevel_WARNING:
  "SetLevel ''WARNING'' (DefineLevels (Levels4 ''INFO'') PlainLogger)
     = Inr ((DefineLevels (Levels4 ''INFO'') PlainLogger)\<lparr> level := ''WARNING'' \<rparr>)"
  by (simp add: SetLevel_def DefineLevels_def Levels4_order ToUpper_level_names)

theorem Loutput_level_gating_witness:
  "SetLevel ''WARNING'' (DefineLevels (Levels4 ''INFO'') PlainLogger)
     = Inr ((DefineLevels (Levels4 ''INFO'') PlainLogger)\<lparr> level := ''WARNING'' \<rparr>)
   \<and> Less (Levels4 ''INFO'') ''INFO'' ''WARNING''
   \<and> \<not> Less (Levels4 ''INFO'') ''ERROR'' ''WARNING''
   \<and> Loutput std_time [] [''level'']
        ((DefineLevels (Levels4 ''INFO'') PlainLogger)\<lparr> level := ''WARNING'' \<rparr>) ''INFO'' ''m''
       = ((DefineLevels (Levels4 ''INFO'') PlainLogger)\<lparr> level := ''WARNING'' \<rparr>, None)
   \<and> out (fst (Loutput std_time [] [''level'']
                  ((DefineLevels (Levels4 ''INFO'') PlainLogger)\<lparr> level := ''WARNING'' \<rparr>)
                  ''ERROR'' ''m''))
       = [Bytes ''[level=ERROR] m'']
   \<and> (\<exists>t. out (fst (Loutput std_time [] [''level'']
                  (SetFormat FormatJSON
                     ((DefineLevels (Levels4 ''INFO'') PlainLogger)\<lparr> level := ''WARNING'' \<rparr>))
                  ''ERROR'' ''m''))
            = [Encoded (JObject t)] \<and> t ''level'' = Some (Str ''ERROR''))"
proof -
  let ?W = "(DefineLevels (Levels4 ''INFO'') PlainLogger)\<lparr> level := ''WARNING'' \<rparr>"
  let ?J = "SetFormat FormatJSON ?W"
  have w: "levelset ?W = Some (Levels4 ''INFO'')" "level ?W = ''WARNING''"
    "levelTag ?W = ''level''" "Format (params ?W) = FormatPlain" "out ?W = []"
    "params ?W = params PlainLogger" "tags ?W = Map.empty"
    by (simp_all add: DefineLevels_def PlainLogger_simps)
  have j: "levelset ?J = Some (Levels4 ''INFO'')" "level ?J = ''WARNING''"
    "levelTag ?J = ''level''" "Format (params ?J) = FormatJSON" "out ?J = []"
    by (simp_all add: SetFormat_def Let_def DefineLevels_def PlainLogger_simps)
  have line: "plainLine (params PlainLogger) [] [''level''] (Set ''level'' [''ERROR''] Map.empty) ''m''
                = ''[level=ERROR] m''"
    by (simp add: plainLine_def lineTags_def bracketTokens_def PlainLogger_simps
        Set_def Del_def Add_def Add1_def)
  show ?thesis
    using Loutput_level_gating [of "''INFO''" ?W "Levels4 ''INFO''" std_time "[]" "[''level'']" "''m''" "''INFO''"]
      Loutput_level_gating [of "''ERROR''" ?W "Levels4 ''INFO''" std_time "[]" "[''level'']" "''m''" "''INFO''"]
      Loutput_level_gating [of "''ERROR''" ?J "Levels4 ''INFO''" std_time "[]" "[''level'']" "''m''" "''INFO''"]
      w j line
    by (simp add: SetLevel_WARNING Levels4_order renderNow_std_time_PlainLogger)
qed

section \<open>On the heap, a store that owns its arrays behaves as the value-level store\<close>

lemma owns_empty: "owns (heap0, Map.empty)"
  by (simp add: owns_def)

lemma ownsI:
  assumes "\<And>k sl. t k = Some (ISlice sl) \<Longrightarrow> slice_ok h sl"
      and "\<And>k k' sl sl'. k \<noteq> k' \<Longrightarrow> t k = Some (ISlice sl) \<Longrightarrow> t k' = Some (ISlice sl')
              \<Longrightarrow> ptr sl \<noteq> ptr sl'"
  shows "owns (h, t)"
  using assms unfolding owns_def by blast

lemma owns_ok: "owns (h, t) \<Longrightarrow> t k = Some (ISlice sl) \<Longrightarrow> slice_ok h sl"
  unfolding owns_def by blast

lemma owns_apart:
  "owns (h, t) \<Longrightarrow> k \<noteq> k' \<Longrightarrow> t k = Some (ISlice sl) \<Longrightarrow> t k' = Some (ISlice sl')
   \<Longrightarrow> ptr sl \<noteq> ptr sl'"
  unfolding owns_def by blast

text \<open>A store that keeps a key's value, over a heap that keeps its array.\<close>

lemma abs_value_same:
  "(\<And>sl. iv = ISlice sl \<Longrightarrow> arrays h' (ptr sl) = arrays h (ptr sl))
   \<Longrightarrow> abs_value h' iv = abs_value h iv"
  by (cases iv) simp_all


lemma owns_update:
  assumes o: "owns (h, t)"
      and frame: "\<And>k sl. k \<noteq> key \<Longrightarrow> t k = Some (ISlice sl) \<Longrightarrow>
                    arrays h' (ptr sl) = arrays h (ptr sl)"
      and free: "free h \<le> free h'"
      and new: "\<And>sl. iv = ISlice sl \<Longrightarrow> slice_ok h' sl"
      and apart: "\<And>sl k sl'. iv = ISlice sl \<Longrightarrow> k \<noteq> key \<Longrightarrow> t k = Some (ISlice sl') \<Longrightarrow>
                    ptr sl' \<noteq> ptr sl"
  shows "owns (h', t(key \<mapsto> iv))"
    and "abs_tags (h', t(key \<mapsto> iv)) = (abs_tags (h, t))(key \<mapsto> abs_value h' iv)"
proof -
  show "owns (h', t(key \<mapsto> iv))"
  proof (rule ownsI)
    fix k sl assume a: "(t(key \<mapsto> iv)) k = Some (ISlice sl)"
    show "slice_ok h' sl"
    proof (cases "k = key")
      case True
      with a show ?thesis by (simp add: new)
    next
      case False
      with a have tk: "t k = Some (ISlice sl)" by simp
      then have "slice_ok h sl" using o by (rule owns_ok [rotated])
      with frame [OF False tk] free show ?thesis by (simp add: slice_ok_def)
    qed
  next
    fix k k' sl sl'
    assume a: "k \<noteq> k'" "(t(key \<mapsto> iv)) k = Some (ISlice sl)"
      "(t(key \<mapsto> iv)) k' = Some (ISlice sl')"
    show "ptr sl \<noteq> ptr sl'"
    proof (cases "k = key")
      case True
      with a have "iv = ISlice sl" "k' \<noteq> key" "t k' = Some (ISlice sl')" by simp_all
      then have "ptr sl' \<noteq> ptr sl" by (rule apart)
      then show ?thesis by simp
    next
      case k: False
      show ?thesis
      proof (cases "k' = key")
        case True
        with a k have "iv = ISlice sl'" "k \<noteq> key" "t k = Some (ISlice sl)" by simp_all
        then show ?thesis by (rule apart)
      next
        case False
        with a k have "t k = Some (ISlice sl)" "t k' = Some (ISlice sl')" by simp_all
        with a(1) show ?thesis by (rule owns_apart [OF o])
      qed
    qed
  qed
  show "abs_tags (h', t(key \<mapsto> iv)) = (abs_tags (h, t))(key \<mapsto> abs_value h' iv)"
  proof (rule ext)
    fix k
    show "abs_tags (h', t(key \<mapsto> iv)) k = ((abs_tags (h, t))(key \<mapsto> abs_value h' iv)) k"
    proof (cases "k = key")
      case True
      then show ?thesis by (simp add: abs_tags_def)
    next
      case False
      have "map_option (abs_value h') (t k) = map_option (abs_value h) (t k)"
      proof (cases "t k")
        case None
        then show ?thesis by simp
      next
        case (Some w)
        have "abs_value h' w = abs_value h w"
          using frame [OF False] Some by (intro abs_value_same) simp
        with Some show ?thesis by simp
      qed
      with False show ?thesis by (simp add: abs_tags_def)
    qed
  qed
qed


lemma owns_delete:
  assumes "owns (h, t)"
  shows "owns (h, t(key := None))"
    and "abs_tags (h, t(key := None)) = (abs_tags (h, t))(key := None)"
proof -
  show "owns (h, t(key := None))"
  proof (rule ownsI)
    fix k sl assume "(t(key := None)) k = Some (ISlice sl)"
    then have "t k = Some (ISlice sl)" by (simp split: if_splits)
    then show "slice_ok h sl" using assms by (rule owns_ok [rotated])
  next
    fix k k' sl sl'
    assume "k \<noteq> k'" "(t(key := None)) k = Some (ISlice sl)"
      "(t(key := None)) k' = Some (ISlice sl')"
    then have "t k = Some (ISlice sl)" "t k' = Some (ISlice sl')" "k \<noteq> k'"
      by (simp_all split: if_splits)
    then show "ptr sl \<noteq> ptr sl'" by (rule owns_apart [OF assms, rotated])
  qed
  show "abs_tags (h, t(key := None)) = (abs_tags (h, t))(key := None)"
    by (auto simp: abs_tags_def fun_eq_iff)
qed

lemma below_free: "owns (h, t) \<Longrightarrow> t k = Some (ISlice sl) \<Longrightarrow> ptr sl < free h"
  using owns_ok [of h t k sl] by (simp add: slice_ok_def)



lemma owns_store:
  assumes o: "owns (h, t)"
      and frame: "\<And>k x. k \<noteq> key \<Longrightarrow> t k = Some (ISlice x) \<Longrightarrow>
                    arrays h' (ptr x) = arrays h (ptr x)"
      and free: "free h \<le> free h'"
      and new: "slice_ok h' sl"
      and apart: "\<And>k x. k \<noteq> key \<Longrightarrow> t k = Some (ISlice x) \<Longrightarrow> ptr x \<noteq> ptr sl"
  shows "owns (h', t(key \<mapsto> ISlice sl))
       \<and> abs_tags (h', t(key \<mapsto> ISlice sl))
           = (abs_tags (h, t))(key \<mapsto> Strs (take (len sl) (arrays h' (ptr sl))))"
proof -
  have n': "slice_ok h' x" if "ISlice sl = ISlice x" for x
    using that new by simp
  have a': "ptr y \<noteq> ptr x" if "ISlice sl = ISlice x" "k \<noteq> key" "t k = Some (ISlice y)"
    for x k y
    using apart [OF that(2,3)] that(1) by simp
  show ?thesis
    using owns_update [where key = key and h' = h' and iv = "ISlice sl", OF o frame free n' a']
    by simp
qed

lemma hAdd1_refines:
  assumes o: "owns (h, t)"
  shows "owns (hAdd1 grow key v (h, t))
       \<and> abs_tags (hAdd1 grow key v (h, t)) = Add1 key v (abs_tags (h, t))"
proof (cases "t key")
  case None
  have r: "hAdd1 grow key v (h, t) = (h, t(key \<mapsto> IString v))"
    using None by (simp add: hAdd1_def)
  have a: "Add1 key v (abs_tags (h, t)) = (abs_tags (h, t))(key \<mapsto> Str v)"
    using None by (simp add: Add1_def abs_tags_def)
  have "owns (h, t(key \<mapsto> IString v))"
    using o by (rule owns_update(1)) simp_all
  moreover have "abs_tags (h, t(key \<mapsto> IString v))
      = (abs_tags (h, t))(key \<mapsto> abs_value h (IString v))"
    using o by (rule owns_update(2)) simp_all
  ultimately show ?thesis by (simp add: r a)
next
  case (Some w)
  show ?thesis
  proof (cases w)
    case (IString s)
    define h' where "h' = h\<lparr> arrays := (arrays h)(free h := [s, v]), free := free h + 1 \<rparr>"
    define sl' where "sl' = \<lparr> ptr = free h, len = 2, cap = 2 \<rparr>"
    have r: "hAdd1 grow key v (h, t) = (h', t(key \<mapsto> ISlice sl'))"
      using Some IString by (simp add: hAdd1_def alloc_def h'_def sl'_def)
    have a: "Add1 key v (abs_tags (h, t)) = (abs_tags (h, t))(key \<mapsto> Strs [s, v])"
      using Some IString by (simp add: Add1_def abs_tags_def)
    have f: "arrays h' (ptr x) = arrays h (ptr x)" if "k \<noteq> key" "t k = Some (ISlice x)" for k x
      using below_free [OF o that(2)] by (simp add: h'_def)
    have fr: "free h \<le> free h'" by (simp add: h'_def)
    have n: "slice_ok h' sl'" by (simp add: slice_ok_def h'_def sl'_def)
    have p: "ptr x \<noteq> ptr sl'" if "k \<noteq> key" "t k = Some (ISlice x)" for k x
      using below_free [OF o that(2)] by (simp add: sl'_def)
    have v: "take (len sl') (arrays h' (ptr sl')) = [s, v]"
      by (simp add: h'_def sl'_def)
    have "owns (h', t(key \<mapsto> ISlice sl'))
       \<and> abs_tags (h', t(key \<mapsto> ISlice sl'))
           = (abs_tags (h, t))(key \<mapsto> Strs (take (len sl') (arrays h' (ptr sl'))))"
      using o f fr n p by (rule owns_store)
    then show ?thesis
      unfolding r a v by simp
  next
    case (ISlice sl)
    with Some have tk: "t key = Some (ISlice sl)" by simp
    from owns_ok [OF o tk] have ok: "ptr sl < free h" "len sl \<le> cap sl"
      "length (arrays h (ptr sl)) = cap sl" by (simp_all add: slice_ok_def)
    have a: "Add1 key v (abs_tags (h, t))
           = (abs_tags (h, t))(key \<mapsto> Strs (take (len sl) (arrays h (ptr sl)) @ [v]))"
      using tk by (simp add: Add1_def abs_tags_def)
    show ?thesis
    proof (cases "len sl < cap sl")
      case True
      define h' where "h' = h\<lparr> arrays := (arrays h)(ptr sl := (arrays h (ptr sl))[len sl := v]) \<rparr>"
      define sl' where "sl' = sl\<lparr> len := len sl + 1 \<rparr>"
      have r: "hAdd1 grow key v (h, t) = (h', t(key \<mapsto> ISlice sl'))"
        using tk True by (simp add: hAdd1_def append_slice_def h'_def sl'_def)
      have p: "ptr x \<noteq> ptr sl'" if "k \<noteq> key" "t k = Some (ISlice x)" for k x
        using owns_apart [OF o that(1) that(2) tk] by (simp add: sl'_def)
      have f: "arrays h' (ptr x) = arrays h (ptr x)" if "k \<noteq> key" "t k = Some (ISlice x)" for k x
        using p [OF that] by (simp add: h'_def sl'_def)
      have fr: "free h \<le> free h'" by (simp add: h'_def)
      have n: "slice_ok h' sl'" using ok True by (simp add: slice_ok_def h'_def sl'_def)
      have v: "take (len sl') (arrays h' (ptr sl')) = take (len sl) (arrays h (ptr sl)) @ [v]"
        using ok True by (simp add: take_Suc_conv_app_nth h'_def sl'_def)
      have "owns (h', t(key \<mapsto> ISlice sl'))
         \<and> abs_tags (h', t(key \<mapsto> ISlice sl'))
             = (abs_tags (h, t))(key \<mapsto> Strs (take (len sl') (arrays h' (ptr sl'))))"
        using o f fr n p by (rule owns_store)
      then show ?thesis
        unfolding r a v by simp
    next
      case False
      define c where "c = max (len sl + 1) (grow (cap sl) (len sl + 1))"
      define h' where "h' = h\<lparr> arrays := (arrays h)(free h :=
           take (len sl) (arrays h (ptr sl)) @ [v] @ replicate (c - (len sl + 1)) []),
           free := free h + 1 \<rparr>"
      define sl' where "sl' = \<lparr> ptr = free h, len = len sl + 1, cap = c \<rparr>"
      have r: "hAdd1 grow key v (h, t) = (h', t(key \<mapsto> ISlice sl'))"
        using tk False by (simp add: hAdd1_def append_slice_def alloc_def Let_def h'_def sl'_def c_def)
      have f: "arrays h' (ptr x) = arrays h (ptr x)" if "k \<noteq> key" "t k = Some (ISlice x)" for k x
        using below_free [OF o that(2)] by (simp add: h'_def)
      have fr: "free h \<le> free h'" by (simp add: h'_def)
      have p: "ptr x \<noteq> ptr sl'" if "k \<noteq> key" "t k = Some (ISlice x)" for k x
        using below_free [OF o that(2)] by (simp add: sl'_def)
      have n: "slice_ok h' sl'" using ok by (simp add: slice_ok_def h'_def sl'_def c_def)
      have v: "take (len sl') (arrays h' (ptr sl')) = take (len sl) (arrays h (ptr sl)) @ [v]"
        using ok by (simp add: h'_def sl'_def)
      have "owns (h', t(key \<mapsto> ISlice sl'))
         \<and> abs_tags (h', t(key \<mapsto> ISlice sl'))
             = (abs_tags (h, t))(key \<mapsto> Strs (take (len sl') (arrays h' (ptr sl'))))"
        using o f fr n p by (rule owns_store)
      then show ?thesis
        unfolding r a v by simp
    qed
  qed
qed


lemma hAdd_refines:
  "owns ht \<Longrightarrow>
   owns (hAdd grow key vs ht) \<and> abs_tags (hAdd grow key vs ht) = Add key vs (abs_tags ht)"
proof (induction vs arbitrary: ht)
  case Nil
  then show ?case by (simp add: hAdd_def Add_def)
next
  case (Cons v vs)
  obtain h t where ht: "ht = (h, t)" by (cases ht)
  from Cons.prems ht have 1: "owns (hAdd1 grow key v ht)"
    and 2: "abs_tags (hAdd1 grow key v ht) = Add1 key v (abs_tags ht)"
    using hAdd1_refines [of h t grow key v] by simp_all
  from Cons.IH [OF 1] 2 show ?case by (simp add: hAdd_def Add_def)
qed

lemma hDel_refines:
  "owns ht \<Longrightarrow> owns (hDel key ht) \<and> abs_tags (hDel key ht) = Del key (abs_tags ht)"
  by (cases ht) (simp add: hDel_def Del_def owns_delete)

lemma hSet_refines:
  "owns ht \<Longrightarrow>
   owns (hSet grow key vs ht) \<and> abs_tags (hSet grow key vs ht) = Set key vs (abs_tags ht)"
  using hDel_refines [of ht key] hAdd_refines [of "hDel key ht" grow key vs]
  by (simp add: hSet_def Set_def)

lemma hPop_refines:
  assumes o: "owns (h, t)"
  shows "owns (hPop key (h, t)) \<and> abs_tags (hPop key (h, t)) = Pop key (abs_tags (h, t))"
proof (cases "t key")
  case None
  with o show ?thesis by (simp add: hPop_def Pop_def abs_tags_def)
next
  case (Some w)
  show ?thesis
  proof (cases w)
    case (IString s)
    with Some o show ?thesis
      by (simp add: hPop_def Pop_def owns_delete) (simp add: abs_tags_def)
  next
    case (ISlice sl)
    with Some have tk: "t key = Some (ISlice sl)" by simp
    from owns_ok [OF o tk] have ok: "ptr sl < free h" "len sl \<le> cap sl"
      "length (arrays h (ptr sl)) = cap sl" by (simp_all add: slice_ok_def)
    have a: "abs_tags (h, t) key = Some (Strs (take (len sl) (arrays h (ptr sl))))"
      using tk by (simp add: abs_tags_def)
    have l: "length (take (len sl) (arrays h (ptr sl))) = len sl"
      using ok by simp
    consider "len sl \<le> 1" | "len sl = 2" | "2 < len sl" by linarith
    then show ?thesis
    proof cases
      case 1
      then have r: "hPop key (h, t) = (h, t(key := None))"
        using tk by (simp add: hPop_def)
      have "Pop key (abs_tags (h, t)) = (abs_tags (h, t))(key := None)"
        using a l 1 by (simp add: Pop_def)
      with r o show ?thesis by (simp add: owns_delete)
    next
      case 2
      then have r: "hPop key (h, t) = (h, t(key \<mapsto> IString (arrays h (ptr sl) ! 0)))"
        using tk by (simp add: hPop_def)
      have p: "Pop key (abs_tags (h, t)) = (abs_tags (h, t))(key \<mapsto> Str (arrays h (ptr sl) ! 0))"
        using a l 2 by (simp add: Pop_def)
      have "owns (h, t(key \<mapsto> IString (arrays h (ptr sl) ! 0)))"
        using o by (rule owns_update(1)) simp_all
      moreover have "abs_tags (h, t(key \<mapsto> IString (arrays h (ptr sl) ! 0)))
          = (abs_tags (h, t))(key \<mapsto> abs_value h (IString (arrays h (ptr sl) ! 0)))"
        using o by (rule owns_update(2)) simp_all
      ultimately show ?thesis by (simp add: r p)
    next
      case 3
      define sl' where "sl' = sl\<lparr> len := len sl - 1 \<rparr>"
      have r: "hPop key (h, t) = (h, t(key \<mapsto> ISlice sl'))"
        using tk 3 by (simp add: hPop_def sl'_def)
      have p: "Pop key (abs_tags (h, t))
          = (abs_tags (h, t))(key \<mapsto> Strs (take (len sl') (arrays h (ptr sl'))))"
        using a l 3 by (simp add: Pop_def sl'_def min_def)
      have f: "arrays h (ptr x) = arrays h (ptr x)" if "k \<noteq> key" "t k = Some (ISlice x)" for k x
        by simp
      have n: "slice_ok h sl'" using ok by (simp add: slice_ok_def sl'_def)
      have q: "ptr x \<noteq> ptr sl'" if "k \<noteq> key" "t k = Some (ISlice x)" for k x
        using owns_apart [OF o that(1) that(2) tk] by (simp add: sl'_def)
      have "owns (h, t(key \<mapsto> ISlice sl'))
         \<and> abs_tags (h, t(key \<mapsto> ISlice sl'))
             = (abs_tags (h, t))(key \<mapsto> Strs (take (len sl') (arrays h (ptr sl'))))"
        using o f order_refl n q by (rule owns_store)
      then show ?thesis by (simp add: r p)
    qed
  qed
qed

lemma hGetAll_refines: "hGetAll h t key = GetAll (abs_tags (h, t)) key"
  by (simp add: hGetAll_def GetAll_def abs_tags_def split: option.splits iface.splits)

section \<open>Copies of a logger share the backing arrays of their tags\<close>

text \<open>
  Claim C1, at a failing input. A logger gets the key \<^verbatim>\<open>k\<close> with the values
  \<^verbatim>\<open>a, b, c\<close> and is copied; both see the three values. Then \<^verbatim>\<open>PopTag("k")\<close> and
  \<^verbatim>\<open>AddTag("k", "x")\<close> on the copy change what the source holds under \<^verbatim>\<open>k\<close> to
  \<^verbatim>\<open>a, b, x\<close>, and the same two calls on the source change what the copy holds.
  \<^verbatim>\<open>Copy\<close> copied the slice header; the resliced header still has the capacity for a
  third element, so \<^verbatim>\<open>append\<close> writes it into the array that both use, whatever
  the runtime's rule \<open>grow\<close> for new capacities.
\<close>

theorem Logger_Copy_shares_backing_array:
  "(case hAddTag grow ''k'' [''a'', ''b'', ''c''] (heap0, Map.empty) of
      (h1, src) \<Rightarrow>
        hGetTags h1 src ''k'' = [''a'', ''b'', ''c'']
        \<and> hGetTags h1 (Logger_Copy src) ''k'' = [''a'', ''b'', ''c'']
        \<and> (case hAddTag grow ''k'' [''x''] (hPopTag ''k'' (h1, Logger_Copy src)) of
              (h3, cpy) \<Rightarrow>
                hGetTags h3 cpy ''k'' = [''a'', ''b'', ''x'']
                \<and> hGetTags h3 src ''k'' = [''a'', ''b'', ''x''])
        \<and> (case hAddTag grow ''k'' [''x''] (hPopTag ''k'' (h1, src)) of
              (h3, src') \<Rightarrow>
                hGetTags h3 src' ''k'' = [''a'', ''b'', ''x'']
                \<and> hGetTags h3 (Logger_Copy src) ''k'' = [''a'', ''b'', ''x'']))"
  by (simp add: hAddTag_def hAdd_def hAdd1_def tagsKey_def heap0_def alloc_def append_slice_def
      hPopTag_def hPop_def Logger_Copy_def hGetTags_def hGetAll_def Let_def)

end
